(* ===== verification/Prelude.thy ===== *)
theory Prelude
  imports Main "HOL-Library.Sublist" "HOL-Library.AList" "HOL-Library.List_Lexorder"
    "HOL-Library.Char_ord"
begin

text \<open>
  What the component theories share: the Python strings, bytes and dictionaries the code uses,
  and the lemma collections the component proofs rely on.

  A Python \<open>str\<close> is modelled by its UTF-8 encoding, a \<open>string\<close> whose characters are bytes.
  Splitting, prefix tests, concatenation, equality and code point order agree with the byte
  operations; \<open>str.strip\<close> is written out for all of Unicode's white space. \<open>bytes\<close> are the same
  lists, and \<open>bytes.decode("utf-8")\<close> succeeds exactly on the valid encodings.

  A Python \<open>dict\<close> is an association list in insertion order; assignment replaces in place or
  appends, as \<open>AList.update\<close> does.
\<close>

named_theorems path_simps \<open>facts about splitting, stripping and joining paths\<close>
named_theorems dict_simps \<open>lookups after an update or a removal of a dictionary\<close>

type_synonym bytes = string
type_synonym str = string
type_synonym 'v dict = "(string \<times> 'v) list"

section \<open>Dictionaries\<close>

abbreviation dget :: "'v dict \<Rightarrow> string \<Rightarrow> 'v option" where
  "dget d k \<equiv> map_of d k"

abbreviation dset :: "string \<Rightarrow> 'v \<Rightarrow> 'v dict \<Rightarrow> 'v dict" where
  "dset k v d \<equiv> AList.update k v d"

abbreviation dpop :: "string \<Rightarrow> 'v dict \<Rightarrow> 'v dict" where
  "dpop k d \<equiv> AList.delete k d"

abbreviation dkeys :: "'v dict \<Rightarrow> string list" where
  "dkeys d \<equiv> map fst d"

definition has_key :: "'v dict \<Rightarrow> string \<Rightarrow> bool" where
  "has_key d k \<longleftrightarrow> map_of d k \<noteq> None"

lemma has_key_iff [dict_simps]: "has_key d k \<longleftrightarrow> k \<in> set (dkeys d)"
  by (force simp: has_key_def map_of_eq_None_iff image_iff)

lemma dget_None_iff [dict_simps]: "dget d k = None \<longleftrightarrow> k \<notin> set (dkeys d)"
  by (simp add: map_of_eq_None_iff)

lemma dget_Some_key: "dget d k = Some v \<Longrightarrow> k \<in> set (dkeys d)"
  using dget_None_iff [of d k] by auto

lemma dget_dset [dict_simps, simp]: "dget (dset k v d) x = (if x = k then Some v else dget d x)"
  by (simp add: update_conv')

lemma dget_dpop [dict_simps, simp]: "dget (dpop k d) x = (if x = k then None else dget d x)"
  by (simp add: delete_conv')

lemma dset_keys [dict_simps]: "set (dkeys (dset k v d)) = insert k (set (dkeys d))"
  by (simp add: dom_update [symmetric] dom_map_of_conv_image_fst [symmetric] update_conv' image_comp)

lemma dpop_keys [dict_simps]: "set (dkeys (dpop k d)) = set (dkeys d) - {k}"
  by (simp add: image_set [symmetric] dom_map_of_conv_image_fst [symmetric] delete_conv')

lemma dset_distinct: "distinct (dkeys d) \<Longrightarrow> distinct (dkeys (dset k v d))"
  by (rule distinct_update)

lemma dpop_distinct: "distinct (dkeys d) \<Longrightarrow> distinct (dkeys (dpop k d))"
  by (rule distinct_delete)

section \<open>Strings\<close>

abbreviation startswith :: "str \<Rightarrow> str \<Rightarrow> bool" where
  "startswith s p \<equiv> prefix p s"

abbreviation endswith :: "str \<Rightarrow> str \<Rightarrow> bool" where
  "endswith s p \<equiv> suffix p s"

text \<open>\<open>s.split(c)\<close> for a one-character separator; never the empty list.\<close>

fun split_on :: "char \<Rightarrow> str \<Rightarrow> str list" where
  "split_on c [] = [[]]"
| "split_on c (x # xs) =
     (if x = c then [] # split_on c xs
      else (x # hd (split_on c xs)) # tl (split_on c xs))"

text \<open>\<open>sep.join(parts)\<close>.\<close>

fun join_with :: "str \<Rightarrow> str list \<Rightarrow> str" where
  "join_with sep [] = []"
| "join_with sep [x] = x"
| "join_with sep (x # y # xs) = x @ sep @ join_with sep (y # xs)"

text \<open>\<open>s.lstrip(c)\<close>, \<open>s.rstrip(c)\<close> and \<open>s.strip(c)\<close> for one ASCII character.\<close>

definition lstrip_char :: "char \<Rightarrow> str \<Rightarrow> str" where
  "lstrip_char c s = dropWhile (\<lambda>x. x = c) s"

definition rstrip_char :: "char \<Rightarrow> str \<Rightarrow> str" where
  "rstrip_char c s = rev (dropWhile (\<lambda>x. x = c) (rev s))"

definition strip_char :: "char \<Rightarrow> str \<Rightarrow> str" where
  "strip_char c s = rstrip_char c (lstrip_char c s)"

definition removeprefix :: "str \<Rightarrow> str \<Rightarrow> str" where
  "removeprefix s p = (if startswith s p then drop (length p) s else s)"

definition removesuffix :: "str \<Rightarrow> str \<Rightarrow> str" where
  "removesuffix s p = (if endswith s p then take (length s - length p) s else s)"

text \<open>
  The length in bytes of the white space code point (\<open>str.isspace\<close>) a string starts with, 0
  when it starts with none: U+0009..U+000D, U+001C..U+0020, U+0085, U+00A0, U+1680,
  U+2000..U+200A, U+2028, U+2029, U+202F, U+205F and U+3000.
\<close>

definition ws_len :: "str \<Rightarrow> nat" where
  "ws_len s = (case s of [] \<Rightarrow> 0 | c # r \<Rightarrow>
     (let b = of_char c :: nat; r1 = map of_char (take 2 r) :: nat list in
      if (9 \<le> b \<and> b \<le> 13) \<or> (28 \<le> b \<and> b \<le> 32) then 1
      else if b = 194 then (if take 1 r1 = [133] \<or> take 1 r1 = [160] then 2 else 0)
      else if b = 225 then (if r1 = [154, 128] then 3 else 0)
      else if b = 226 then
        (if length r1 = 2 \<and>
            ((hd r1 = 128 \<and> (128 \<le> r1 ! 1 \<and> r1 ! 1 \<le> 138 \<or> r1 ! 1 = 168 \<or> r1 ! 1 = 169 \<or> r1 ! 1 = 175))
             \<or> r1 = [129, 159]) then 3 else 0)
      else if b = 227 then (if r1 = [128, 128] then 3 else 0)
      else 0))"

function lstrip :: "str \<Rightarrow> str" where
  "lstrip s = (if s = [] \<or> ws_len s = 0 then s else lstrip (drop (ws_len s) s))"
  by pat_completeness auto
termination
  by (relation "measure length") auto

declare lstrip.simps [simp del]

text \<open>\<open>rstrip\<close> cuts the string where only white space is left.\<close>

fun rstrip :: "str \<Rightarrow> str" where
  "rstrip [] = []"
| "rstrip (c # cs) = (if lstrip (c # cs) = [] then [] else c # rstrip cs)"

definition strip :: "str \<Rightarrow> str" where
  "strip s = rstrip (lstrip s)"

text \<open>\<open>bytes.decode("utf-8")\<close>: the encodings RFC 3629 allows, everything else raises.\<close>

definition cont_byte :: "nat \<Rightarrow> bool" where
  "cont_byte b \<longleftrightarrow> 128 \<le> b \<and> b \<le> 191"

fun utf8_valid :: "nat list \<Rightarrow> bool" where
  "utf8_valid [] = True"
| "utf8_valid (b # bs) =
     (if b < 128 then utf8_valid bs
      else if 194 \<le> b \<and> b \<le> 223 then
        (case bs of b1 # r \<Rightarrow> cont_byte b1 \<and> utf8_valid r | _ \<Rightarrow> False)
      else if 224 \<le> b \<and> b \<le> 239 then
        (case bs of b1 # b2 # r \<Rightarrow>
           cont_byte b1 \<and> cont_byte b2 \<and> (b = 224 \<longrightarrow> 160 \<le> b1) \<and> (b = 237 \<longrightarrow> b1 \<le> 159) \<and>
           utf8_valid r | _ \<Rightarrow> False)
      else if 240 \<le> b \<and> b \<le> 244 then
        (case bs of b1 # b2 # b3 # r \<Rightarrow>
           cont_byte b1 \<and> cont_byte b2 \<and> cont_byte b3 \<and> (b = 240 \<longrightarrow> 144 \<le> b1) \<and>
           (b = 244 \<longrightarrow> b1 \<le> 143) \<and> utf8_valid r | _ \<Rightarrow> False)
      else False)"

definition decode_utf8 :: "bytes \<Rightarrow> str option" where
  "decode_utf8 bs = (if utf8_valid (map of_char bs) then Some bs else None)"

text \<open>Universal newlines, which \<open>Path.read_text\<close> applies when it reads a file as text.\<close>

fun universal_newlines :: "str \<Rightarrow> str" where
  "universal_newlines [] = []"
| "universal_newlines (c # cs) =
     (if c = CHR 0x0D then
        CHR 0x0A # universal_newlines (if cs \<noteq> [] \<and> hd cs = CHR 0x0A then tl cs else cs)
      else c # universal_newlines cs)"

text \<open>The code points of a string, each as the string of its bytes.\<close>

fun code_points :: "str \<Rightarrow> str list" where
  "code_points [] = []"
| "code_points (c # cs) = (case code_points cs of
     [] \<Rightarrow> [[c]]
   | p # ps \<Rightarrow> if cont_byte (of_char (hd p)) then (c # p) # ps else [c] # p # ps)"

section \<open>Facts about strings\<close>

text \<open>Printable ASCII without the space: no white space code point contains such a byte.\<close>

definition plain :: "char \<Rightarrow> bool" where
  "plain c \<longleftrightarrow> 33 \<le> (of_char c :: nat) \<and> (of_char c :: nat) \<le> 126"

lemma split_on_nonempty [simp]: "split_on c s \<noteq> []"
  by (induction s) auto

lemma split_on_hd_tl [simp]: "hd (split_on c s) # tl (split_on c s) = split_on c s"
  by simp

lemma split_on_no_sep: "c \<notin> set s \<Longrightarrow> split_on c s = [s]"
  by (induction s) auto

lemma split_on_append_sep [path_simps]:
  "split_on c (s @ c # t) = split_on c s @ split_on c t"
  by (induction s) (auto simp: tl_append split: list.split)

lemma split_on_prepend: "c \<notin> set u \<Longrightarrow>
    split_on c (u @ s) = (u @ hd (split_on c s)) # tl (split_on c s)"
  by (induction u) auto

lemma split_on_append_back: "c \<notin> set u \<Longrightarrow>
    split_on c (s @ u) = butlast (split_on c s) @ [last (split_on c s) @ u]"
proof (induction s)
  case Nil
  then show ?case by (simp add: split_on_no_sep)
next
  case (Cons a s)
  obtain y ys where "split_on c s = y # ys"
    using split_on_nonempty by (metis list.exhaust)
  with Cons show ?case by (cases ys) auto
qed

lemma split_on_parts_no_sep: "p \<in> set (split_on c s) \<Longrightarrow> c \<notin> set p"
proof (induction s arbitrary: p)
  case (Cons x xs)
  have "hd (split_on c xs) \<in> set (split_on c xs)" by simp
  moreover have "set (tl (split_on c xs)) \<subseteq> set (split_on c xs)"
    by (meson list.set_sel(2) split_on_nonempty subsetI)
  ultimately show ?case using Cons by (auto split: if_splits)
qed simp

lemma join_split [path_simps]: "join_with [c] (split_on c s) = s"
proof (induction s)
  case (Cons x xs)
  obtain y ys where s: "split_on c xs = y # ys"
    using split_on_nonempty by (metis list.exhaust)
  with Cons show ?case by (cases ys) auto
qed simp

lemma lstrip_char_split: "\<exists>n. s = replicate n c @ lstrip_char c s"
proof (induction s)
  case (Cons x xs)
  then obtain n where n: "xs = replicate n c @ lstrip_char c xs" ..
  show ?case
  proof (cases "x = c")
    case True
    then have "x # xs = replicate (Suc n) c @ lstrip_char c (x # xs)"
      using n by (simp add: lstrip_char_def)
    then show ?thesis ..
  next
    case False
    then have "x # xs = replicate 0 c @ lstrip_char c (x # xs)"
      by (simp add: lstrip_char_def)
    then show ?thesis ..
  qed
qed (simp add: lstrip_char_def)

lemma lstrip_char_id: "s = [] \<or> hd s \<noteq> c \<Longrightarrow> lstrip_char c s = s"
  by (cases s) (auto simp: lstrip_char_def)

lemma lstrip_char_hd: "lstrip_char c s = [] \<or> hd (lstrip_char c s) \<noteq> c"
  by (induction s) (auto simp: lstrip_char_def)

lemma rstrip_char_id: "s = [] \<or> last s \<noteq> c \<Longrightarrow> rstrip_char c s = s"
  by (cases s rule: rev_cases) (auto simp: rstrip_char_def)

lemma strip_char_id: "s \<noteq> [] \<Longrightarrow> hd s \<noteq> c \<Longrightarrow> last s \<noteq> c \<Longrightarrow> strip_char c s = s"
  by (simp add: strip_char_def lstrip_char_id rstrip_char_id)

section \<open>White space\<close>

lemma ws_len_Nil [simp]: "ws_len [] = 0"
  by (simp add: ws_len_def)

lemma ws_len_plain: "plain c \<Longrightarrow> ws_len (c # r) = 0"
  by (auto simp: ws_len_def plain_def Let_def)

lemma ws_len_not_plain: "c \<in> set (take (ws_len s) s) \<Longrightarrow> \<not> plain c"
proof (cases s)
  case (Cons x r)
  assume c: "c \<in> set (take (ws_len s) s)"
  show ?thesis
  proof (cases r)
    case Nil
    with c Cons show ?thesis
      by (auto simp: ws_len_def plain_def Let_def split: if_splits)
  next
    case r: (Cons y r')
    show ?thesis
      using c unfolding Cons r
      by (cases r') (auto simp: ws_len_def plain_def Let_def split: if_splits)
  qed
qed simp

lemma lstrip_split: "\<exists>u. s = u @ lstrip s \<and> (\<forall>c\<in>set u. \<not> plain c)"
proof (induction s rule: lstrip.induct)
  case (1 s)
  show ?case
  proof (cases "s = [] \<or> ws_len s = 0")
    case True
    then show ?thesis by (simp add: lstrip.simps [of s])
  next
    case False
    with "1.IH" obtain u where u: "drop (ws_len s) s = u @ lstrip (drop (ws_len s) s)"
      "\<forall>c\<in>set u. \<not> plain c" by blast
    have "s = take (ws_len s) s @ drop (ws_len s) s" by simp
    also have "\<dots> = (take (ws_len s) s @ u) @ lstrip s"
      using False u(1) by (simp add: lstrip.simps [of s])
    finally have "s = (take (ws_len s) s @ u) @ lstrip s" .
    moreover have "\<forall>c\<in>set (take (ws_len s) s @ u). \<not> plain c"
      using u(2) ws_len_not_plain [of _ s] by auto
    ultimately show ?thesis by blast
  qed
qed

lemma lstrip_Nil [simp]: "lstrip [] = []"
  by (simp add: lstrip.simps)

lemma lstrip_plain: "s \<noteq> [] \<Longrightarrow> plain (hd s) \<Longrightarrow> lstrip s = s"
  by (subst lstrip.simps) (cases s, auto simp: ws_len_plain)

lemma lstrip_empty_not_plain: "lstrip s = [] \<Longrightarrow> c \<in> set s \<Longrightarrow> \<not> plain c"
  using lstrip_split [of s] by auto

lemma rstrip_split: "\<exists>u. s = rstrip s @ u \<and> (\<forall>c\<in>set u. \<not> plain c)"
proof (induction s)
  case (Cons c cs)
  then obtain u where u: "cs = rstrip cs @ u" "\<forall>c\<in>set u. \<not> plain c" by blast
  show ?case
  proof (cases "lstrip (c # cs) = []")
    case True
    then show ?thesis using lstrip_empty_not_plain [OF True] by auto
  next
    case False
    then show ?thesis using u by (intro exI [of _ u]) simp
  qed
qed simp

lemma rstrip_plain: "s \<noteq> [] \<Longrightarrow> plain (last s) \<Longrightarrow> rstrip s = s"
proof (induction s)
  case (Cons c cs)
  from Cons.prems have "lstrip (c # cs) \<noteq> []"
    using lstrip_empty_not_plain [OF _ last_in_set] by blast
  with Cons show ?case by (cases "cs = []") auto
qed simp

lemma strip_split: "\<exists>u v. s = u @ strip s @ v \<and> (\<forall>c\<in>set u \<union> set v. \<not> plain c)"
proof -
  obtain u where u: "s = u @ lstrip s" "\<forall>c\<in>set u. \<not> plain c" using lstrip_split by blast
  obtain v where v: "lstrip s = strip s @ v" "\<forall>c\<in>set v. \<not> plain c"
    using rstrip_split unfolding strip_def by blast
  have "s = u @ strip s @ v" using u(1) v(1) by simp
  with u(2) v(2) show ?thesis by (intro exI [of _ u] exI [of _ v]) auto
qed

lemma strip_id: "s \<noteq> [] \<Longrightarrow> plain (hd s) \<Longrightarrow> plain (last s) \<Longrightarrow> strip s = s"
  by (simp add: strip_def lstrip_plain rstrip_plain)

lemma strip_Nil [simp]: "strip [] = []"
  by (simp add: strip_def)

text \<open>White space by its first, second and third byte.\<close>

definition ws1 :: "char \<Rightarrow> bool" where
  "ws1 c \<longleftrightarrow> (let b = of_char c :: nat in (9 \<le> b \<and> b \<le> 13) \<or> (28 \<le> b \<and> b \<le> 32))"

definition ws2 :: "char \<Rightarrow> char \<Rightarrow> bool" where
  "ws2 c d \<longleftrightarrow> of_char c = (194 :: nat) \<and> (of_char d = (133 :: nat) \<or> of_char d = (160 :: nat))"

definition ws3 :: "char \<Rightarrow> char \<Rightarrow> char \<Rightarrow> bool" where
  "ws3 c d e \<longleftrightarrow> (let b = of_char c; x = of_char d; y = of_char e :: nat in
     b = (225 :: nat) \<and> x = (154 :: nat) \<and> y = 128 \<or>
     b = 226 \<and> (x = 128 \<and> (128 \<le> y \<and> y \<le> 138 \<or> y = 168 \<or> y = 169 \<or> y = 175) \<or> x = 129 \<and> y = 159) \<or>
     b = 227 \<and> x = 128 \<and> y = 128)"

lemma ws_len_1: "ws_len [c] = (if ws1 c then 1 else 0)"
  by (simp add: ws_len_def ws1_def Let_def)

lemma ws_len_2: "ws_len [c, d] = (if ws1 c then 1 else if ws2 c d then 2 else 0)"
  by (auto simp add: ws_len_def ws1_def ws2_def Let_def)

lemma ws_len_3: "ws_len (c # d # e # r) = (if ws1 c then 1 else if ws2 c d then 2 else if ws3 c d e then 3 else 0)"
  by (auto simp add: ws_len_def ws1_def ws2_def ws3_def Let_def)

lemmas ws_len_eqs = ws_len_1 ws_len_2 ws_len_3

lemma ws_cont: "ws2 c d \<Longrightarrow> cont_byte (of_char d)"
  "ws3 c d e \<Longrightarrow> cont_byte (of_char d)" "ws3 c d e \<Longrightarrow> cont_byte (of_char e)"
  by (auto simp: ws2_def ws3_def cont_byte_def Let_def)

lemma ws_cont_not: "cont_byte (of_char c) \<Longrightarrow> \<not> ws1 c \<and> \<not> ws2 c d \<and> \<not> ws3 c d e"
  by (auto simp: ws1_def ws2_def ws3_def cont_byte_def Let_def)

lemma list_3_cases:
  obtains "s = []" | c where "s = [c]" | c d where "s = [c, d]" | c d e r where "s = c # d # e # r"
  by (metis list.exhaust)

lemma ws_len_prefix0: "ws_len s = 0 \<Longrightarrow> ws_len (take n s) = 0"
proof (cases s rule: list_3_cases)
  case (4 c d e r)
  assume 0: "ws_len s = 0"
  consider "n = 0" | "n = 1" | "n = 2" | m where "n = Suc (Suc (Suc m))"
    by (metis One_nat_def not0_implies_Suc numeral_2_eq_2)
  then show ?thesis
    using 0 by cases (auto simp: 4 ws_len_eqs numeral_2_eq_2 split: if_splits)
qed (auto simp: ws_len_eqs take_Cons' split: if_splits)

lemma ws_len_cases:
  assumes "ws_len s \<noteq> 0"
  obtains c r where "s = c # r" "ws_len s = 1" "\<And>t. ws_len (c # t) = 1"
  | c d r where "s = c # d # r" "ws_len s = 2" "cont_byte (of_char d)"
      "\<And>t. ws_len (c # d # t) = 2"
  | c d e r where "s = c # d # e # r" "ws_len s = 3" "cont_byte (of_char d)" "cont_byte (of_char e)"
      "\<And>t. ws_len (c # d # e # t) = 3"
proof -
  have one: "ws_len (c # t) = 1" if "ws1 c" for c t
    using that by (cases "c # t" rule: list_3_cases) (auto simp: ws_len_eqs)
  have two: "ws_len (c # d # t) = 2" if "\<not> ws1 c" "ws2 c d" for c d t
    using that by (cases t) (auto simp: ws_len_eqs)
  show thesis
  proof (cases s rule: list_3_cases)
    case 1
    with assms show thesis by simp
  next
    case (2 c)
    with assms one show thesis by (intro that(1) [of c "[]"]) (auto simp: ws_len_eqs split: if_splits)
  next
    case (3 c d)
    show thesis
    proof (cases "ws1 c")
      case True
      with 3 one show thesis by (intro that(1) [of c "[d]"]) auto
    next
      case False
      with 3 assms two ws_cont(1) show thesis
        by (intro that(2) [of c d "[]"]) (auto simp: ws_len_eqs split: if_splits)
    qed
  next
    case (4 c d e r)
    consider "ws1 c" | "\<not> ws1 c" "ws2 c d" | "\<not> ws1 c" "\<not> ws2 c d" "ws3 c d e"
      using assms 4 by (auto simp: ws_len_eqs split: if_splits)
    then show thesis
    proof cases
      case 1
      with 4 one show thesis by (intro that(1) [of c "d # e # r"]) auto
    next
      case 2
      with 4 two ws_cont(1) show thesis by (intro that(2) [of c d "e # r"]) auto
    next
      case 3
      with 4 ws_cont(2,3) show thesis by (intro that(3) [of c d e r]) (auto simp: ws_len_eqs)
    qed
  qed
qed

lemma lstrip_cont: "cont_byte (of_char c) \<Longrightarrow> lstrip (c # r) = c # r"
  using ws_cont_not [of c]
  by (subst lstrip.simps, cases "c # r" rule: list_3_cases) (auto simp: ws_len_eqs)

lemma lstrip_ws0: "ws_len s = 0 \<Longrightarrow> lstrip s = s"
  by (subst lstrip.simps) simp

lemma rstrip_take: "\<exists>n. rstrip s = take n s"
  using rstrip_split [of s] by (metis append_eq_conv_conj)

lemma lstrip_lstrip: "ws_len (lstrip s) = 0"
proof (induction s rule: lstrip.induct)
  case (1 s)
  then show ?case by (subst lstrip.simps) auto
qed

lemma lstrip_rstrip_nonempty: "lstrip s \<noteq> [] \<Longrightarrow> lstrip (rstrip s) \<noteq> []"
proof (induction s rule: lstrip.induct)
  case (1 s)
  show ?case
  proof (cases "ws_len s = 0")
    case True
    with "1.prems" obtain c cs where "s = c # cs" by (cases s) auto
    moreover have "lstrip (rstrip s) = rstrip s"
      using True rstrip_take [of s] ws_len_prefix0 lstrip_ws0 by metis
    ultimately show ?thesis using "1.prems" by auto
  next
    case False
    then have ne: "s \<noteq> []" by auto
    with False "1.IH" "1.prems" have IH: "lstrip (rstrip (drop (ws_len s) s)) \<noteq> []"
      using lstrip.simps [of s] by auto
    from False show ?thesis
    proof (cases rule: ws_len_cases)
      case (1 c r)
      then have "rstrip s = c # rstrip r" using "1.prems" by simp
      then show ?thesis using IH 1 lstrip.simps [of "c # rstrip r"] by simp
    next
      case (2 c d r)
      then have "rstrip s = c # d # rstrip r" using "1.prems" by (simp add: lstrip_cont)
      then show ?thesis using IH 2 lstrip.simps [of "c # d # rstrip r"] by (simp add: numeral_2_eq_2)
    next
      case (3 c d e r)
      then have "rstrip s = c # d # e # rstrip r" using "1.prems" by (simp add: lstrip_cont)
      then show ?thesis using IH 3 lstrip.simps [of "c # d # e # rstrip r"] by (simp add: numeral_3_eq_3)
    qed
  qed
qed

lemma rstrip_rstrip [simp]: "rstrip (rstrip s) = rstrip s"
proof (induction s)
  case (Cons c cs)
  then show ?case using lstrip_rstrip_nonempty [of "c # cs"] by (cases "lstrip (c # cs) = []") auto
qed simp

lemma strip_strip [simp]: "strip (strip s) = strip s"
proof -
  have "ws_len (rstrip (lstrip s)) = 0"
    using rstrip_take [of "lstrip s"] ws_len_prefix0 [OF lstrip_lstrip] by metis
  then show ?thesis by (simp add: strip_def lstrip_ws0)
qed

lemma strip_empty_lstrip: "strip s = [] \<longleftrightarrow> lstrip s = []"
proof
  assume "strip s = []"
  then show "lstrip s = []"
    using lstrip_rstrip_nonempty [of "lstrip s"] lstrip_ws0 [OF lstrip_lstrip, of s]
    by (metis strip_def lstrip_Nil)
qed (simp add: strip_def)

section \<open>Steps that may raise\<close>

text \<open>
  A loop of steps over a state. A step that raises ends the loop: \<open>Inl\<close> holds the exception and the
  state it leaves behind.
\<close>

fun run_steps :: "('a \<Rightarrow> 's \<Rightarrow> ('e \<times> 's) + 's) \<Rightarrow> 'a list \<Rightarrow> 's \<Rightarrow> ('e \<times> 's) + 's" where
  "run_steps step [] s = Inr s"
| "run_steps step (x # xs) s = (case step x s of Inl r \<Rightarrow> Inl r | Inr s' \<Rightarrow> run_steps step xs s')"

definition and_then :: "('e \<times> 's) + 's \<Rightarrow> ('s \<Rightarrow> ('e \<times> 's) + 's) \<Rightarrow> ('e \<times> 's) + 's" where
  "and_then r f = (case r of Inl e \<Rightarrow> Inl e | Inr s \<Rightarrow> f s)"

text \<open>The state a result holds, and a property of it whether or not an exception was raised.\<close>

fun after :: "('e \<times> 's) + 's \<Rightarrow> 's" where
  "after (Inl (e, s)) = s"
| "after (Inr s) = s"

lemma run_steps_after:
  assumes "P s" and "\<And>x s. x \<in> set xs \<Longrightarrow> P s \<Longrightarrow> P (after (step x s))"
  shows "P (after (run_steps step xs s))"
  using assms
proof (induction xs arbitrary: s)
  case (Cons x xs)
  then have "P (after (step x s))" by simp
  with Cons show ?case by (cases "step x s") auto
qed simp

lemma and_then_after:
  "P (after r) \<Longrightarrow> (\<And>s. r = Inr s \<Longrightarrow> P s \<Longrightarrow> P (after (f s))) \<Longrightarrow> P (after (and_then r f))"
  by (auto simp: and_then_def split: sum.splits)

lemma run_steps_Inr:
  assumes "run_steps step xs s = Inr s'" and "P s"
    and "\<And>x s s'. x \<in> set xs \<Longrightarrow> step x s = Inr s' \<Longrightarrow> P s \<Longrightarrow> P s'"
  shows "P s'"
  using assms
proof (induction xs arbitrary: s)
  case (Cons x xs)
  then obtain s1 where s1: "step x s = Inr s1" "run_steps step xs s1 = Inr s'"
    by (auto split: sum.splits)
  show ?case
  proof (rule Cons.IH [OF s1(2)])
    show "P s1" using Cons.prems(2,3) s1(1) by (meson list.set_intros(1))
  qed (use Cons.prems(3) in \<open>meson list.set_intros(2)\<close>)
qed simp

section \<open>State machines\<close>

text \<open>A step relation with an invariant: it holds in every state that steps lead to.\<close>

locale transitions =
  fixes starts :: "'s \<Rightarrow> bool" and steps :: "'s \<Rightarrow> 's \<Rightarrow> bool" and inv :: "'s \<Rightarrow> bool"
  assumes starts_inv: "starts s \<Longrightarrow> inv s"
    and steps_inv: "inv s \<Longrightarrow> steps s t \<Longrightarrow> inv t"
begin

lemma kept: "steps\<^sup>*\<^sup>* s t \<Longrightarrow> inv s \<Longrightarrow> inv t"
  by (induction rule: rtranclp_induct) (auto intro: steps_inv)

lemma reached: "starts s \<Longrightarrow> steps\<^sup>*\<^sup>* s t \<Longrightarrow> inv t"
  by (blast intro: kept starts_inv)

end

end
