(* ===== verification/PostPaths.thy ===== *)
theory PostPaths
  imports Prelude
begin

text \<open>
  The shared path rules of \<^verbatim>\<open>packages/agblogger-core\<close>: canonical post paths
  (\<^verbatim>\<open>slug.py\<close>) and the sync-managed surface (\<^verbatim>\<open>sync_paths.py\<close>). A raised
  \<open>ValueError\<close> is \<open>Inl\<close> of its message.
\<close>

section \<open>Canonical post paths\<close>

definition is_directory_post_path :: "str \<Rightarrow> bool" where
  "is_directory_post_path file_path =
     (let normalized = strip_char (CHR ''/'') (strip file_path) in
      if \<not> startswith normalized ''posts/'' \<or> \<not> endswith normalized ''/index.md'' then False
      else 3 \<le> length (split_on (CHR ''/'') normalized))"

definition validated_post_path :: "str \<Rightarrow> str + str" where
  "validated_post_path raw =
     (let normalized = strip_char (CHR ''/'') (strip raw) in
      if \<not> is_directory_post_path normalized then Inl (''Not a canonical post path: '' @ raw)
      else Inr normalized)"

definition file_path_to_slug :: "str \<Rightarrow> str + str" where
  "file_path_to_slug file_path =
     (let normalized = strip_char (CHR ''/'') (strip file_path) in
      if startswith normalized ''posts/'' then
        if \<not> is_directory_post_path normalized then Inl (''Unsupported post path: '' @ file_path)
        else Inr (removesuffix (removeprefix normalized ''posts/'') ''/index.md'')
      else Inr normalized)"

definition resolve_slug_candidates :: "str \<Rightarrow> str list" where
  "resolve_slug_candidates slug = [''posts/'' @ slug @ ''/index.md'']"

section \<open>The sync-managed surface\<close>

definition sync_allowed_top_level_files :: "str list" where
  "sync_allowed_top_level_files = [''index.toml'', ''labels.toml'']"

definition is_sync_managed_path :: "str \<Rightarrow> bool" where
  "is_sync_managed_path file_path =
     (let normalized = lstrip_char (CHR ''/'') (strip file_path) in
      if normalized = [] then False
      else
        let parts = filter (\<lambda>part. part \<noteq> []) (split_on (CHR ''/'') normalized) in
        if parts = [] then False
        else if list_ex (\<lambda>part. part = ''.'' \<or> part = ''..'' \<or> startswith part ''.'') parts then False
        else if normalized \<in> set sync_allowed_top_level_files then True
        else if length parts = 1 \<and> endswith normalized ''.md'' then True
        else if startswith normalized ''assets/'' then True
        else if startswith normalized ''posts/'' then
          (if endswith normalized ''.md'' then is_directory_post_path normalized else True)
        else False)"

lemma canon_post_ends [path_simps]:
  "strip_char (CHR ''/'') (strip (''posts/'' @ slug @ ''/index.md'')) = ''posts/'' @ slug @ ''/index.md''"
  by (subst strip_id) (simp_all add: plain_def strip_char_id)

lemma canon_post_parts:
  "3 \<le> length (split_on (CHR ''/'') (''posts/'' @ slug @ ''/index.md''))"
proof -
  have "''posts/'' @ slug @ ''/index.md'' = ''posts'' @ CHR ''/'' # (slug @ CHR ''/'' # ''index.md'')"
    by simp
  then have "split_on (CHR ''/'') (''posts/'' @ slug @ ''/index.md'') =
      split_on (CHR ''/'') ''posts'' @ split_on (CHR ''/'') slug @ split_on (CHR ''/'') ''index.md''"
    by (simp only: split_on_append_sep)
  moreover have "length (split_on (CHR ''/'') slug) \<ge> 1"
    by (simp add: Suc_le_eq)
  ultimately show ?thesis by simp
qed

lemma canon_post: "is_directory_post_path (''posts/'' @ slug @ ''/index.md'')"
proof -
  define n where "n = ''posts/'' @ slug @ ''/index.md''"
  have "suffix ''/index.md'' n"
    unfolding n_def by (rule suffixI [of _ "''posts/'' @ slug"]) simp
  moreover have "prefix ''posts/'' n" by (simp add: n_def)
  moreover have "strip_char (CHR ''/'') (strip n) = n"
    unfolding n_def by (rule canon_post_ends)
  moreover have "3 \<le> length (split_on (CHR ''/'') n)"
    unfolding n_def by (rule canon_post_parts)
  ultimately have "is_directory_post_path n"
    by (simp add: is_directory_post_path_def)
  then show ?thesis unfolding n_def .
qed

lemma canon_post_shape:
  assumes "startswith p ''posts/''" and "endswith p ''/index.md''"
    and "3 \<le> length (split_on (CHR ''/'') p)"
  obtains slug where "p = ''posts/'' @ slug @ ''/index.md''"
proof -
  obtain r where r: "p = ''posts/'' @ r" using assms(1) by (auto simp: prefix_def)
  from assms(2) [unfolded r suffix_append]
  consider "suffix ''/index.md'' r" | xs where "''/index.md'' = xs @ r" "suffix xs ''posts/''"
    by blast
  then show thesis
  proof cases
    case 1
    then obtain slug where "r = slug @ ''/index.md''" by (auto simp: suffix_def)
    with r show thesis by (intro that) simp
  next
    case 2
    show thesis
    proof (cases xs rule: rev_cases)
      case Nil
      with 2(1) r show thesis by (intro that [of "[]"]) simp
    next
      case (snoc ys y)
      with 2(2) have y: "y = CHR ''/''" by (auto simp: suffix_def)
      with 2(1) snoc have eq: "''/index.md'' = ys @ CHR ''/'' # r" by simp
      show thesis
      proof (cases ys)
        case Nil
        with eq r have "p = ''posts/index.md''" by simp
        with assms(3) show thesis by simp
      next
        case (Cons z zs)
        with eq have "''index.md'' = zs @ CHR ''/'' # r" by simp
        then have "CHR ''/'' \<in> set ''index.md''" by (metis in_set_conv_decomp)
        then show thesis by simp
      qed
    qed
  qed
qed

lemma is_directory_post_pathD:
  assumes "is_directory_post_path f"
  obtains slug where "strip_char (CHR ''/'') (strip f) = ''posts/'' @ slug @ ''/index.md''"
  using assms by (auto simp: is_directory_post_path_def Let_def split: if_splits elim: canon_post_shape)

section \<open>No hidden or parent component is managed\<close>

lemma split_pad_right:
  assumes "c \<notin> set v" and "p \<in> set (split_on c (s @ v))" and "d \<notin> set v" and "startswith p [d]"
  shows "\<exists>q\<in>set (split_on c s). startswith q [d]"
proof -
  from assms(1,2) have "p \<in> set (butlast (split_on c s)) \<or> p = last (split_on c s) @ v"
    by (auto simp: split_on_append_back)
  then show ?thesis
  proof
    assume "p \<in> set (butlast (split_on c s))"
    with assms(4) show ?thesis by (blast dest: in_set_butlastD)
  next
    assume p: "p = last (split_on c s) @ v"
    with assms(3,4) have "startswith (last (split_on c s)) [d]"
      by (cases "last (split_on c s)") (auto simp: prefix_def)
    then show ?thesis by (meson last_in_set split_on_nonempty)
  qed
qed

lemma split_pad_left:
  assumes "c \<notin> set u" and "p \<in> set (split_on c (u @ s))" and "d \<notin> set u" and "startswith p [d]"
  shows "\<exists>q\<in>set (split_on c s). startswith q [d]"
proof -
  from assms(1,2) have "p = u @ hd (split_on c s) \<or> p \<in> set (tl (split_on c s))"
    by (simp add: split_on_prepend)
  then show ?thesis
  proof
    assume "p = u @ hd (split_on c s)"
    with assms(3,4) have "startswith (hd (split_on c s)) [d]"
      by (cases u) (auto simp: prefix_def)
    then show ?thesis by (meson hd_in_set split_on_nonempty)
  next
    assume "p \<in> set (tl (split_on c s))"
    with assms(4) show ?thesis by (meson list.set_sel(2) split_on_nonempty)
  qed
qed

lemma split_replicate_sep:
  "split_on c (replicate n c @ s) = replicate n [] @ split_on c s"
  by (induction n) auto

lemma dot_slash_plain: "plain (CHR ''.'')" "plain (CHR ''/'')"
  by (simp_all add: plain_def)

lemma managed_no_dot_component:
  assumes "is_sync_managed_path f" and "p \<in> set (split_on (CHR ''/'') f)"
  shows "\<not> startswith p ''.''"
proof
  assume p: "startswith p ''.''"
  let ?s = "strip f" and ?t = "lstrip_char (CHR ''/'') (strip f)"
  obtain u v where f: "f = u @ ?s @ v" and uv: "\<forall>c\<in>set u \<union> set v. \<not> plain c"
    using strip_split by blast
  obtain n where n: "?s = replicate n (CHR ''/'') @ ?t" using lstrip_char_split by blast
  have no: "CHR ''/'' \<notin> set u" "CHR ''/'' \<notin> set v" "CHR ''.'' \<notin> set u" "CHR ''.'' \<notin> set v"
    using uv dot_slash_plain by auto
  have "\<exists>q\<in>set (split_on (CHR ''/'') (?s @ v)). startswith q ''.''"
    using split_pad_left [OF no(1) _ no(3) p] assms(2) f by metis
  then obtain q where "q \<in> set (split_on (CHR ''/'') ?s)" "startswith q ''.''"
    using split_pad_right [OF no(2) _ no(4)] by blast
  moreover from this have "q \<noteq> []" by auto
  ultimately have "q \<in> set (split_on (CHR ''/'') ?t)" "startswith q ''.''"
    using arg_cong [OF n, of "split_on (CHR ''/'')"] by (auto simp: split_replicate_sep)
  then have "list_ex (\<lambda>part. part = ''.'' \<or> part = ''..'' \<or> startswith part ''.'')
      (filter (\<lambda>part. part \<noteq> []) (split_on (CHR ''/'') ?t))"
    by (auto simp: list_ex_iff)
  with assms(1) show False by (simp add: is_sync_managed_path_def Let_def split: if_splits)
qed

section \<open>Properties\<close>

text \<open>
  C17. A slug and its post path determine each other: the path the server resolves a slug to is
  accepted as a canonical post path and gives the slug back.
\<close>

theorem slug_path_roundtrip:
  "list_all is_directory_post_path (resolve_slug_candidates slug) \<and>
   map file_path_to_slug (resolve_slug_candidates slug) = [Inr slug]"
proof -
  define n where "n = ''posts/'' @ slug @ ''/index.md''"
  have canon: "is_directory_post_path n" unfolding n_def by (rule canon_post)
  have ends: "strip_char (CHR ''/'') (strip n) = n" unfolding n_def by (rule canon_post_ends)
  have "removeprefix n ''posts/'' = slug @ ''/index.md''" by (simp add: n_def removeprefix_def)
  moreover have "removesuffix (slug @ ''/index.md'') ''/index.md'' = slug"
    by (simp add: removesuffix_def suffix_def)
  moreover have "startswith n ''posts/''" by (simp add: n_def)
  ultimately have "file_path_to_slug n = Inr slug"
    using canon ends by (simp add: file_path_to_slug_def)
  with canon show ?thesis unfolding resolve_slug_candidates_def n_def [symmetric] by simp
qed

text \<open>
  C16. Whatever a managed path looks like as it was received, none of its components is hidden,
  \<open>.\<close> or \<open>..\<close>, so no accepted path can climb out of the directory it is joined to.
\<close>

theorem managed_path_no_dot_components:
  assumes "is_sync_managed_path f"
  shows "list_all (\<lambda>p. p \<noteq> ''..'' \<and> p \<noteq> ''.'' \<and> \<not> startswith p ''.'') (split_on (CHR ''/'') f)"
  using managed_no_dot_component [OF assms] by (fastforce simp: list_all_iff)

theorem managed_path_no_dot_components_witness:
  "list_all (\<lambda>p. p \<noteq> ''..'' \<and> p \<noteq> ''.'' \<and> \<not> startswith p ''.'')
     (split_on (CHR ''/'') ''/assets/logo.png'')"
proof -
  have "is_sync_managed_path ''/assets/logo.png''" by code_simp
  then show ?thesis by (rule managed_path_no_dot_components)
qed

end
