(* ===== verification/ContentFs.thy ===== *)
theory ContentFs
  imports PostPaths
begin

text \<open>
  The content directory as the sync code sees it: files and directories under absolute paths, the
  operations of \<open>pathlib\<close> the handlers use, and the path, snapshot, pruning and rollback helpers of
  \<^verbatim>\<open>backend/api/sync.py\<close>.

  A path is the list of its components. The tree holds no symbolic links, so \<open>Path.resolve\<close> is
  lexical (\<open>resolve_path\<close>); the path check itself takes the resolution as an argument. Any system
  call may fail: \<open>io op p\<close> says whether operation \<open>op\<close> on path \<open>p\<close> raises \<open>OSError\<close>.
\<close>

type_synonym path = "str list"

record fs =
  files :: "(path \<times> bytes) list"
  dirs :: "path list"

datatype io_op =
  SnapshotRead | Unlink | Rmdir | ReadText | Mkdir | WriteFile | NormWrite
  | RestoreUnlink | RestoreMkdir | RestoreWrite | ScanFile | StatFile | WalkContent
  | ClientRead | ClientMkdir | ClientWrite | ClientUnlink | BackupMkdir | BackupCopy | ConfigWrite
  | ReadConfig | AtomicWrite

type_synonym io_faults = "io_op \<Rightarrow> path \<Rightarrow> bool"

datatype http_error = HTTPException nat str

section \<open>Paths\<close>

text \<open>The components \<open>pathlib\<close> keeps of a string, and \<open>directory / string\<close>.\<close>

definition path_parts :: "str \<Rightarrow> path" where
  "path_parts s = filter (\<lambda>p. p \<noteq> [] \<and> p \<noteq> ''.'') (split_on (CHR ''/'') s)"

definition join_path :: "path \<Rightarrow> str \<Rightarrow> path" where
  "join_path d s = (if startswith s ''/'' then path_parts s else d @ path_parts s)"

definition resolve_path :: "path \<Rightarrow> path" where
  "resolve_path p = rev (fold (\<lambda>c acc. if c = ''..'' then tl acc else c # acc) p [])"

definition resolve_safe_path :: "(path \<Rightarrow> path) \<Rightarrow> path \<Rightarrow> str \<Rightarrow> http_error + path" where
  "resolve_safe_path resolve content_dir file_path =
     (let target = lstrip_char (CHR ''/'') file_path in
      if startswith target ''posts/'' \<and> endswith target ''.md'' \<and> \<not> is_directory_post_path target
      then Inl (HTTPException 403 ''Sync access to this path is not allowed'')
      else if \<not> is_sync_managed_path target
      then Inl (HTTPException 403 ''Sync access to this path is not allowed'')
      else
        let resolved_content_dir = resolve content_dir;
            full_path = resolve (join_path content_dir target) in
        if \<not> prefix resolved_content_dir full_path then Inl (HTTPException 400 ''Invalid file path'')
        else Inr full_path)"

section \<open>The file system\<close>

definition read_file :: "fs \<Rightarrow> path \<Rightarrow> bytes option" where
  "read_file F p = map_of (files F) p"

definition is_file :: "fs \<Rightarrow> path \<Rightarrow> bool" where
  "is_file F p \<longleftrightarrow> read_file F p \<noteq> None"

definition is_dir :: "fs \<Rightarrow> path \<Rightarrow> bool" where
  "is_dir F p \<longleftrightarrow> p = [] \<or> p \<in> set (dirs F)"

definition path_exists :: "fs \<Rightarrow> path \<Rightarrow> bool" where
  "path_exists F p \<longleftrightarrow> is_file F p \<or> is_dir F p"

text \<open>\<open>Path.unlink\<close>: a directory or a missing file is an \<open>OSError\<close>.\<close>

definition unlink :: "io_faults \<Rightarrow> io_op \<Rightarrow> fs \<Rightarrow> path \<Rightarrow> fs option" where
  "unlink io op F p =
     (if io op p \<or> \<not> is_file F p then None else Some (F\<lparr>files := AList.delete p (files F)\<rparr>))"

text \<open>\<open>Path.mkdir(parents=True, exist_ok=True)\<close>: fails when a component is a file.\<close>

definition mkdirs :: "io_faults \<Rightarrow> io_op \<Rightarrow> fs \<Rightarrow> path \<Rightarrow> fs option" where
  "mkdirs io op F d =
     (if io op d \<or> list_ex (is_file F) (prefixes d) then None
      else Some (F\<lparr>dirs := dirs F @ filter (\<lambda>q. \<not> is_dir F q) (prefixes d)\<rparr>))"

text \<open>\<open>Path.write_bytes\<close> and \<open>Path.write_text\<close>.\<close>

definition write_file :: "io_faults \<Rightarrow> io_op \<Rightarrow> fs \<Rightarrow> path \<Rightarrow> bytes \<Rightarrow> fs option" where
  "write_file io op F p b =
     (if io op p \<or> p = [] \<or> is_dir F p \<or> \<not> is_dir F (butlast p) then None
      else Some (F\<lparr>files := AList.update p b (files F)\<rparr>))"

text \<open>\<open>Path.rmdir\<close>: only an empty directory.\<close>

definition has_child :: "fs \<Rightarrow> path \<Rightarrow> bool" where
  "has_child F p = list_ex (\<lambda>q. q \<noteq> [] \<and> butlast q = p) (map fst (files F) @ dirs F)"

definition rmdir :: "io_faults \<Rightarrow> fs \<Rightarrow> path \<Rightarrow> fs option" where
  "rmdir io F p =
     (if io Rmdir p \<or> p = [] \<or> p \<notin> set (dirs F) \<or> has_child F p then None
      else Some (F\<lparr>dirs := removeAll p (dirs F)\<rparr>))"

text \<open>The loop of \<open>_prune_empty_directories\<close>; the parent of the root is the root, whose removal
  fails.\<close>

function prune_empty_directories :: "io_faults \<Rightarrow> fs \<Rightarrow> path \<Rightarrow> path \<Rightarrow> fs" where
  "prune_empty_directories io F current stop_at =
     (if resolve_path current = resolve_path stop_at then F
      else (case rmdir io F current of
              None \<Rightarrow> F
            | Some F' \<Rightarrow> prune_empty_directories io F' (butlast current) stop_at))"
  by pat_completeness auto
termination
  by (relation "measure (\<lambda>(io, F, current, stop_at). length current)")
    (auto simp: rmdir_def split: if_splits)

declare prune_empty_directories.simps [simp del]

section \<open>Snapshots and rollback\<close>

type_synonym originals = "bytes option dict"

definition remember_original_file ::
  "io_faults \<Rightarrow> originals \<Rightarrow> str \<Rightarrow> path \<Rightarrow> fs \<Rightarrow> http_error + originals" where
  "remember_original_file io original_files name full_path F =
     (if has_key original_files name then Inr original_files
      else if path_exists F full_path \<and> is_file F full_path then
        (if io SnapshotRead full_path then Inl (HTTPException 500 ''File I/O error during sync'')
         else Inr (dset name (read_file F full_path) original_files))
      else Inr (dset name None original_files))"

definition restore_one :: "io_faults \<Rightarrow> path \<Rightarrow> str \<Rightarrow> bytes option \<Rightarrow> fs \<Rightarrow> fs \<times> str list" where
  "restore_one io content_dir name original F =
     (let full_path = join_path content_dir name in
      case original of
        None \<Rightarrow>
          (if path_exists F full_path then
             (case unlink io RestoreUnlink F full_path of
                None \<Rightarrow> (F, [name])
              | Some F' \<Rightarrow> (prune_empty_directories io F' (butlast full_path) content_dir, []))
           else (prune_empty_directories io F (butlast full_path) content_dir, []))
      | Some b \<Rightarrow>
          (case mkdirs io RestoreMkdir F (butlast full_path) of
             None \<Rightarrow> (F, [name])
           | Some F' \<Rightarrow>
               (case write_file io RestoreWrite F' full_path b of
                  None \<Rightarrow> (F', [name])
                | Some F'' \<Rightarrow> (F'', []))))"

fun restore_original_files :: "io_faults \<Rightarrow> path \<Rightarrow> originals \<Rightarrow> fs \<Rightarrow> fs \<times> str list" where
  "restore_original_files io content_dir [] F = (F, [])"
| "restore_original_files io content_dir ((name, original) # rest) F =
     (let (F1, failures1) = restore_one io content_dir name original F;
          (F2, failures2) = restore_original_files io content_dir rest F1
      in (F2, failures1 @ failures2))"

section \<open>Stores\<close>

text \<open>What the handlers rely on when they read, write and remove a file.\<close>

locale file_store =
  fixes read :: "'s \<Rightarrow> 'p \<Rightarrow> 'b option"
    and put :: "'s \<Rightarrow> 'p \<Rightarrow> 'b \<Rightarrow> 's option"
    and remove :: "'s \<Rightarrow> 'p \<Rightarrow> 's option"
  assumes read_put: "put s p b = Some s' \<Longrightarrow> read s' q = (if q = p then Some b else read s q)"
    and read_remove: "remove s p = Some s' \<Longrightarrow> read s' q = (if q = p then None else read s q)"
begin

lemma put_changes_only: "put s p b = Some s' \<Longrightarrow> q \<noteq> p \<Longrightarrow> read s' q = read s q"
  by (simp add: read_put)

lemma remove_changes_only: "remove s p = Some s' \<Longrightarrow> q \<noteq> p \<Longrightarrow> read s' q = read s q"
  by (simp add: read_remove)

end

text \<open>
  An undo log over a store: it remembers the content some paths had, and undoing puts every
  remembered content back. The client's invariant: whatever differs from the first state is in the
  log, with the content it had there.
\<close>

locale undo_log =
  fixes read :: "'s \<Rightarrow> 'p \<Rightarrow> 'b option"
    and saved :: "'l \<Rightarrow> 'p \<Rightarrow> 'b option option"
    and usable :: "'l \<Rightarrow> bool"
    and undo :: "'l \<Rightarrow> 's \<Rightarrow> 's \<times> 'e list"
  assumes read_undo: "usable l \<Longrightarrow> undo l s = (s', []) \<Longrightarrow>
    read s' p = (case saved l p of None \<Rightarrow> read s p | Some v \<Rightarrow> v)"
begin

definition covers :: "'s \<Rightarrow> 'l \<Rightarrow> 's \<Rightarrow> bool" where
  "covers s0 l s \<longleftrightarrow> usable l \<and> (\<forall>p v. saved l p = Some v \<longrightarrow> v = read s0 p) \<and>
     (\<forall>p. saved l p = None \<longrightarrow> read s p = read s0 p)"

lemma covers_start: "usable l \<Longrightarrow> (\<And>p. saved l p = None) \<Longrightarrow> covers s l s"
  by (simp add: covers_def)

lemma covers_log:
  assumes "covers s0 l s" and "usable l'" and "saved l p = None"
    and "\<And>q. saved l' q = (if q = p then Some (read s p) else saved l q)"
  shows "covers s0 l' s"
  using assms by (auto simp: covers_def)

lemma covers_change:
  assumes "covers s0 l s" and "saved l p \<noteq> None" and "\<And>q. q \<noteq> p \<Longrightarrow> read s' q = read s q"
  shows "covers s0 l s'"
  unfolding covers_def
proof (intro conjI allI impI)
  show "read s' q = read s0 q" if "saved l q = None" for q
    using assms that by (cases "q = p") (auto simp: covers_def)
qed (use assms in \<open>auto simp: covers_def\<close>)

lemma undo_covered: "covers s0 l s \<Longrightarrow> undo l s = (s', []) \<Longrightarrow> read s' p = read s0 p"
  using read_undo [of l s s' p] by (auto simp: covers_def split: option.splits)

end

section \<open>The content directory is such a store\<close>

lemma read_write_file:
  "write_file io op F p b = Some F' \<Longrightarrow> read_file F' q = (if q = p then Some b else read_file F q)"
  by (auto simp: write_file_def read_file_def update_conv' split: if_splits)

lemma read_unlink:
  "unlink io op F p = Some F' \<Longrightarrow> read_file F' q = (if q = p then None else read_file F q)"
  by (auto simp: unlink_def read_file_def delete_conv' split: if_splits)

interpretation fs_store: file_store read_file "write_file io op" "unlink io op'" for io op op'
  by unfold_locales (simp_all add: read_write_file read_unlink)

lemma read_mkdirs [simp]: "mkdirs io op F d = Some F' \<Longrightarrow> read_file F' q = read_file F q"
  by (auto simp: mkdirs_def read_file_def split: if_splits)

lemma read_prune [simp]: "read_file (prune_empty_directories io F c stop_at) q = read_file F q"
proof (induction io F c stop_at rule: prune_empty_directories.induct)
  case (1 io F c stop_at)
  have "read_file F' q = read_file F q" if "rmdir io F c = Some F'" for F'
    using that by (auto simp: rmdir_def read_file_def split: if_splits)
  with 1 show ?case
    by (simp add: prune_empty_directories.simps [of io F c] split: option.split)
qed

lemma restore_one_reads:
  assumes "restore_one io d n v F = (F', [])"
  shows "read_file F' q = (if q = join_path d n then v else read_file F q)"
  using assms
  by (auto simp: restore_one_def Let_def read_unlink read_write_file path_exists_def is_file_def
      split: option.splits if_splits)

definition saved_at :: "path \<Rightarrow> originals \<Rightarrow> path \<Rightarrow> bytes option option" where
  "saved_at d l p = map_of (map (\<lambda>(n, v). (join_path d n, v)) l) p"

definition one_name_per_path :: "path \<Rightarrow> originals \<Rightarrow> bool" where
  "one_name_per_path d l \<longleftrightarrow> distinct (map (\<lambda>(n, v). join_path d n) l)"

lemma restore_reads:
  "one_name_per_path d l \<Longrightarrow> restore_original_files io d l F = (F', []) \<Longrightarrow>
   read_file F' p = (case saved_at d l p of None \<Rightarrow> read_file F p | Some v \<Rightarrow> v)"
proof (induction l arbitrary: F)
  case (Cons x l)
  obtain n v where x: "x = (n, v)" by fastforce
  obtain F1 fl1 where F1: "restore_one io d n v F = (F1, fl1)" by fastforce
  obtain F2 fl2 where F2: "restore_original_files io d l F1 = (F2, fl2)" by fastforce
  from Cons.prems(2) x F1 F2 have eq: "F2 = F'" "fl1 = []" "fl2 = []" by auto
  from Cons.prems(1) x have dist: "one_name_per_path d l" "join_path d n \<notin> (\<lambda>(n, v). join_path d n) ` set l"
    by (auto simp: one_name_per_path_def)
  then have "saved_at d l (join_path d n) = None"
    by (force simp: saved_at_def map_of_eq_None_iff)
  moreover have "read_file F' p = (case saved_at d l p of None \<Rightarrow> read_file F1 p | Some v \<Rightarrow> v)"
    using Cons.IH [OF dist(1)] F2 eq by simp
  ultimately show ?case
    using restore_one_reads [OF F1 [unfolded eq(2)], of p] x
    by (auto simp: saved_at_def split: option.splits)
qed (simp add: saved_at_def)

interpretation sync_undo: undo_log read_file "saved_at d" "one_name_per_path d"
    "restore_original_files io d" for io d
  by unfold_locales (rule restore_reads)

section \<open>Names and paths\<close>

text \<open>A name without empty components, the form every scan produces.\<close>

definition clean_name :: "str \<Rightarrow> bool" where
  "clean_name n \<longleftrightarrow> path_parts n = split_on (CHR ''/'') n"

lemma clean_name_relative: "clean_name n \<Longrightarrow> \<not> startswith n ''/''"
proof
  assume "clean_name n" "startswith n ''/''"
  then obtain r where "n = CHR ''/'' # r" by (auto simp: prefix_def)
  then have "[] \<in> set (split_on (CHR ''/'') n)" by simp
  moreover have "[] \<notin> set (path_parts n)" by (simp add: path_parts_def)
  ultimately show False using \<open>clean_name n\<close> by (simp add: clean_name_def)
qed

lemma join_clean: "clean_name n \<Longrightarrow> join_path d n = d @ split_on (CHR ''/'') n"
  using clean_name_relative [of n] by (simp add: join_path_def clean_name_def)

lemma join_clean_inj: "clean_name m \<Longrightarrow> clean_name n \<Longrightarrow> join_path d m = join_path d n \<Longrightarrow> m = n"
  by (metis join_clean join_split same_append_eq)

lemma join_clean_mem:
  "clean_name n \<Longrightarrow> \<forall>m\<in>A. clean_name m \<Longrightarrow> join_path d n \<in> join_path d ` A \<longleftrightarrow> n \<in> A"
  by (auto dest: join_clean_inj)

lemma lstrip_relative: "\<not> startswith (lstrip_char c s) [c]"
  using lstrip_char_hd [of c s] by (cases "lstrip_char c s") auto

lemma join_lstrip: "join_path d (lstrip_char (CHR ''/'') n) = d @ path_parts (lstrip_char (CHR ''/'') n)"
  using lstrip_relative [of "CHR ''/''" n] by (simp add: join_path_def)

lemma lstrip_clean: "clean_name n \<Longrightarrow> lstrip_char (CHR ''/'') n = n"
  using clean_name_relative [of n] by (intro lstrip_char_id) (cases n, auto)

lemma resolve_no_parent: "''..'' \<notin> set p \<Longrightarrow> resolve_path p = p"
proof -
  have "''..'' \<notin> set p \<Longrightarrow> fold (\<lambda>c acc. if c = ''..'' then tl acc else c # acc) p acc = rev p @ acc" for acc
    by (induction p arbitrary: acc) auto
  then show "''..'' \<notin> set p \<Longrightarrow> resolve_path p = p" by (simp add: resolve_path_def)
qed

lemma managed_parts_no_parent: "is_sync_managed_path n \<Longrightarrow> ''..'' \<notin> set (path_parts n)"
  using managed_no_dot_component [of n "''..''"] by (auto simp: path_parts_def)

lemma resolve_safe_pathD:
  assumes "resolve_safe_path resolve_path d n = Inr p" and "''..'' \<notin> set d"
  shows "p = d @ path_parts (lstrip_char (CHR ''/'') n)" "is_sync_managed_path (lstrip_char (CHR ''/'') n)"
proof -
  let ?t = "lstrip_char (CHR ''/'') n"
  from assms(1) show m: "is_sync_managed_path ?t"
    by (auto simp: resolve_safe_path_def Let_def split: if_splits)
  have "resolve_path (join_path d ?t) = d @ path_parts ?t"
    using managed_parts_no_parent [OF m] assms(2) by (simp add: join_lstrip resolve_no_parent)
  with assms(1) show "p = d @ path_parts ?t"
    by (auto simp: resolve_safe_path_def Let_def split: if_splits)
qed

lemma resolve_safe_path_clean:
  assumes "resolve_safe_path resolve_path d n = Inr p" and "''..'' \<notin> set d" and "clean_name n"
  shows "p = join_path d n"
  using resolve_safe_pathD [OF assms(1,2)] assms(3) by (simp add: lstrip_clean join_clean clean_name_def)

lemma resolve_safe_no_parent:
  assumes "resolve_safe_path resolve_path d n = Inr p" and "''..'' \<notin> set d" and "clean_name n"
  shows "''..'' \<notin> set (join_path d n)"
  using managed_parts_no_parent [OF resolve_safe_pathD(2) [OF assms(1,2)]] assms(2,3)
  by (simp add: lstrip_clean join_clean clean_name_def)

lemma saved_at_name: "has_key l n \<Longrightarrow> saved_at d l (join_path d n) \<noteq> None"
  by (induction l) (auto simp: saved_at_def has_key_def split: if_splits)

definition clean_log :: "originals \<Rightarrow> bool" where
  "clean_log l \<longleftrightarrow> list_all clean_name (dkeys l) \<and> distinct (dkeys l)"

lemma clean_log_usable: "clean_log l \<Longrightarrow> one_name_per_path d l"
proof (induction l)
  case (Cons x l)
  obtain n v where x: "x = (n, v)" by fastforce
  have "join_path d n \<noteq> join_path d m" if "(m, w) \<in> set l" for m w
    using Cons.prems x that join_clean_inj [of n m d] by (force simp: clean_log_def list_all_iff)
  with Cons x show ?case by (fastforce simp: one_name_per_path_def clean_log_def)
qed (simp add: one_name_per_path_def)

lemma saved_at_fresh:
  assumes "clean_log l" and "clean_name n" and "\<not> has_key l n"
  shows "saved_at d l (join_path d n) = None"
proof (rule ccontr)
  assume "\<not> ?thesis"
  then obtain m v where m: "(m, v) \<in> set l" "join_path d m = join_path d n"
    by (auto simp: saved_at_def map_of_eq_None_iff)
  with assms have "m = n" by (intro join_clean_inj) (auto simp: clean_log_def list_all_iff)
  with m assms(3) show False by (force simp: has_key_iff)
qed

lemma saved_at_dset:
  "\<not> has_key l n \<Longrightarrow> saved_at d l (join_path d n) = None \<Longrightarrow>
   saved_at d (dset n v l) q = (if q = join_path d n then Some v else saved_at d l q)"
  by (induction l) (auto simp: saved_at_def has_key_def split: if_splits)

text \<open>Remembering a file keeps the log covering, and covers the file.\<close>

lemma remember_covers:
  assumes "sync_undo.covers d F0 l F" and "clean_log l" and "clean_name n"
    and "remember_original_file io l n (join_path d n) F = Inr l'"
  shows "sync_undo.covers d F0 l' F" "clean_log l'" "saved_at d l' (join_path d n) \<noteq> None"
proof -
  consider "has_key l n" "l' = l" | "\<not> has_key l n" "l' = dset n (read_file F (join_path d n)) l"
    using assms(4) by (auto simp: remember_original_file_def path_exists_def is_file_def split: if_splits)
  then have "sync_undo.covers d F0 l' F \<and> clean_log l' \<and> saved_at d l' (join_path d n) \<noteq> None"
  proof cases
    case 1
    with assms show ?thesis by (simp add: saved_at_name)
  next
    case 2
    have fresh: "saved_at d l (join_path d n) = None"
      by (rule saved_at_fresh [OF assms(2,3) 2(1)])
    have clean: "clean_log l'"
      using assms(2,3) 2 dset_keys [of n "read_file F (join_path d n)" l]
      by (auto simp: clean_log_def list_all_iff intro: distinct_update)
    have "sync_undo.covers d F0 l' F"
      using assms(1) clean_log_usable [OF clean] fresh
      by (rule sync_undo.covers_log) (simp add: 2 saved_at_dset [OF 2(1) fresh])
    with clean show ?thesis by (simp add: 2(2) saved_at_dset [OF 2(1) fresh])
  qed
  then show "sync_undo.covers d F0 l' F" "clean_log l'" "saved_at d l' (join_path d n) \<noteq> None"
    by simp_all
qed

lemma remember_keeps:
  assumes "remember_original_file io l n (join_path d n) F = Inr l'" and "clean_log l" and "clean_name n"
    and "saved_at d l q \<noteq> None"
  shows "saved_at d l' q \<noteq> None"
proof (cases "has_key l n")
  case True
  with assms show ?thesis by (simp add: remember_original_file_def)
next
  case False
  then have "l' = dset n (read_file F (join_path d n)) l"
    using assms(1) by (auto simp: remember_original_file_def path_exists_def is_file_def split: if_splits)
  with saved_at_dset [OF False saved_at_fresh [OF assms(2,3) False]] assms(4) show ?thesis by simp
qed

end
