(* ===== verification/SyncPlan.thy ===== *)
theory SyncPlan
  imports Prelude
begin

text \<open>
  Change detection, \<^verbatim>\<open>backend/services/sync_service.py\<close>: the file entries, the sync plan and
  \<open>compute_sync_plan\<close>, which compares the client's files, the manifest of the last sync and the
  server's files. \<open>decide\<close> is the three-way rule the plan has to implement; \<open>plan_implements_decide\<close>
  shows that the code's nested branches do.
\<close>

section \<open>Data\<close>

datatype change_type =
  NO_CHANGE | LOCAL_ADD | LOCAL_MODIFY | LOCAL_DELETE | REMOTE_ADD | REMOTE_MODIFY
  | REMOTE_DELETE | CONFLICT | DELETE_MODIFY_CONFLICT

record file_entry =
  file_path :: str
  content_hash :: str
  file_size :: nat
  file_mtime :: str

type_synonym manifest = "file_entry dict"

record sync_change =
  change_path :: str
  change_kind :: change_type
  action :: str

record sync_plan =
  to_upload :: "str list"
  to_download :: "str list"
  to_delete_remote :: "str list"
  to_delete_local :: "str list"
  conflicts :: "sync_change list"
  no_change :: "str list"

definition empty_plan :: sync_plan where
  "empty_plan = \<lparr>to_upload = [], to_download = [], to_delete_remote = [], to_delete_local = [],
     conflicts = [], no_change = []\<rparr>"

section \<open>The plan\<close>

text \<open>\<open>m[path].content_hash\<close>, used where the path is known to be a key.\<close>

definition hash_at :: "manifest \<Rightarrow> str \<Rightarrow> str" where
  "hash_at m p = (case dget m p of Some e \<Rightarrow> content_hash e | None \<Rightarrow> [])"

definition add_conflict :: "str \<Rightarrow> change_type \<Rightarrow> sync_plan \<Rightarrow> sync_plan" where
  "add_conflict p k plan = plan\<lparr>conflicts := conflicts plan @
     [\<lparr>change_path = p, change_kind = k, action = ''merge''\<rparr>]\<rparr>"

text \<open>One round of the loop over the paths.\<close>

definition plan_path :: "manifest \<Rightarrow> manifest \<Rightarrow> manifest \<Rightarrow> str \<Rightarrow> sync_plan \<Rightarrow> sync_plan" where
  "plan_path client_manifest server_manifest server_current path plan =
     (let in_client = has_key client_manifest path;
          in_manifest = has_key server_manifest path;
          in_server = has_key server_current path;
          client_hash = hash_at client_manifest path;
          manifest_hash = hash_at server_manifest path;
          server_hash = hash_at server_current path
      in
      if in_client \<and> in_manifest \<and> in_server then
        (let client_changed = client_hash \<noteq> manifest_hash;
             server_changed = server_hash \<noteq> manifest_hash
         in
         if \<not> client_changed \<and> \<not> server_changed then plan\<lparr>no_change := no_change plan @ [path]\<rparr>
         else if client_changed \<and> \<not> server_changed then plan\<lparr>to_upload := to_upload plan @ [path]\<rparr>
         else if \<not> client_changed \<and> server_changed then plan\<lparr>to_download := to_download plan @ [path]\<rparr>
         else if client_hash = server_hash then plan\<lparr>no_change := no_change plan @ [path]\<rparr>
         else add_conflict path CONFLICT plan)
      else if in_client \<and> \<not> in_manifest \<and> \<not> in_server then
        plan\<lparr>to_upload := to_upload plan @ [path]\<rparr>
      else if \<not> in_client \<and> \<not> in_manifest \<and> in_server then
        plan\<lparr>to_download := to_download plan @ [path]\<rparr>
      else if in_client \<and> in_manifest \<and> \<not> in_server then
        (if client_hash \<noteq> manifest_hash then add_conflict path DELETE_MODIFY_CONFLICT plan
         else plan\<lparr>to_delete_local := to_delete_local plan @ [path]\<rparr>)
      else if \<not> in_client \<and> in_manifest \<and> in_server then
        (if server_hash \<noteq> manifest_hash then add_conflict path DELETE_MODIFY_CONFLICT plan
         else plan\<lparr>to_delete_remote := to_delete_remote plan @ [path]\<rparr>)
      else if in_client \<and> \<not> in_manifest \<and> in_server then
        (if client_hash = server_hash then plan\<lparr>no_change := no_change plan @ [path]\<rparr>
         else add_conflict path CONFLICT plan)
      else if \<not> in_client \<and> in_manifest \<and> \<not> in_server then
        plan\<lparr>no_change := no_change plan @ [path]\<rparr>
      else plan)"

definition plan_paths :: "manifest \<Rightarrow> manifest \<Rightarrow> manifest \<Rightarrow> str list" where
  "plan_paths client_manifest server_manifest server_current =
     sort (remdups (dkeys client_manifest @ dkeys server_manifest @ dkeys server_current))"

definition compute_sync_plan :: "manifest \<Rightarrow> manifest \<Rightarrow> manifest \<Rightarrow> sync_plan" where
  "compute_sync_plan client_manifest server_manifest server_current =
     fold (plan_path client_manifest server_manifest server_current)
       (plan_paths client_manifest server_manifest server_current) empty_plan"

section \<open>The three-way rule\<close>

text \<open>
  The specification: what to do with one path, given the hash it has on the client, in the
  manifest and on the server, \<open>None\<close> where it is absent. A side that still agrees with the
  manifest follows the other one; two sides that agree need nothing.
\<close>

datatype decision =
  Keep | Upload | Download | DeleteRemote | DeleteLocal | Clash change_type

definition decide :: "str option \<Rightarrow> str option \<Rightarrow> str option \<Rightarrow> decision" where
  "decide c m s =
     (if c = s then Keep
      else if s = m then (if c = None then DeleteRemote else Upload)
      else if c = m then (if s = None then DeleteLocal else Download)
      else Clash (if c = None \<or> s = None then DELETE_MODIFY_CONFLICT else CONFLICT))"

definition hash_of :: "manifest \<Rightarrow> str \<Rightarrow> str option" where
  "hash_of m p = map_option content_hash (dget m p)"

definition decision_at :: "manifest \<Rightarrow> manifest \<Rightarrow> manifest \<Rightarrow> str \<Rightarrow> decision" where
  "decision_at cm sm sc p = decide (hash_of cm p) (hash_of sm p) (hash_of sc p)"

definition clash_of :: "manifest \<Rightarrow> manifest \<Rightarrow> manifest \<Rightarrow> str \<Rightarrow> sync_change list" where
  "clash_of cm sm sc p = (case decision_at cm sm sc p of
     Clash k \<Rightarrow> [\<lparr>change_path = p, change_kind = k, action = ''merge''\<rparr>] | _ \<Rightarrow> [])"

text \<open>The plan that follows the rule path by path, each list in the order of the paths.\<close>

definition spec_plan :: "manifest \<Rightarrow> manifest \<Rightarrow> manifest \<Rightarrow> str list \<Rightarrow> sync_plan" where
  "spec_plan cm sm sc ps =
     \<lparr>to_upload = filter (\<lambda>p. decision_at cm sm sc p = Upload) ps,
      to_download = filter (\<lambda>p. decision_at cm sm sc p = Download) ps,
      to_delete_remote = filter (\<lambda>p. decision_at cm sm sc p = DeleteRemote) ps,
      to_delete_local = filter (\<lambda>p. decision_at cm sm sc p = DeleteLocal) ps,
      conflicts = concat (map (clash_of cm sm sc) ps),
      no_change = filter (\<lambda>p. decision_at cm sm sc p = Keep) ps\<rparr>"

fun apply_decision :: "decision \<Rightarrow> str \<Rightarrow> sync_plan \<Rightarrow> sync_plan" where
  "apply_decision Keep p plan = plan\<lparr>no_change := no_change plan @ [p]\<rparr>"
| "apply_decision Upload p plan = plan\<lparr>to_upload := to_upload plan @ [p]\<rparr>"
| "apply_decision Download p plan = plan\<lparr>to_download := to_download plan @ [p]\<rparr>"
| "apply_decision DeleteRemote p plan = plan\<lparr>to_delete_remote := to_delete_remote plan @ [p]\<rparr>"
| "apply_decision DeleteLocal p plan = plan\<lparr>to_delete_local := to_delete_local plan @ [p]\<rparr>"
| "apply_decision (Clash k) p plan = add_conflict p k plan"

lemma plan_path_decides:
  assumes "dget cm p \<noteq> None \<or> dget sm p \<noteq> None \<or> dget sc p \<noteq> None"
  shows "plan_path cm sm sc p plan = apply_decision (decision_at cm sm sc p) p plan"
  using assms
  by (cases "dget cm p"; cases "dget sm p"; cases "dget sc p")
    (simp_all add: plan_path_def has_key_def hash_at_def decision_at_def decide_def hash_of_def)

lemma apply_decision_spec:
  "apply_decision (decision_at cm sm sc p) p (spec_plan cm sm sc ps) = spec_plan cm sm sc (ps @ [p])"
  by (cases "decision_at cm sm sc p") (simp_all add: spec_plan_def add_conflict_def clash_of_def)

lemma plan_path_spec:
  assumes "p \<in> set (dkeys cm) \<union> set (dkeys sm) \<union> set (dkeys sc)"
  shows "plan_path cm sm sc p (spec_plan cm sm sc ps) = spec_plan cm sm sc (ps @ [p])"
proof -
  have "dget cm p \<noteq> None \<or> dget sm p \<noteq> None \<or> dget sc p \<noteq> None"
    using assms by (auto simp: map_of_eq_None_iff)
  then show ?thesis by (simp add: plan_path_decides apply_decision_spec)
qed

lemma plan_fold_spec:
  "set qs \<subseteq> set (dkeys cm) \<union> set (dkeys sm) \<union> set (dkeys sc) \<Longrightarrow>
   fold (plan_path cm sm sc) qs (spec_plan cm sm sc ps) = spec_plan cm sm sc (ps @ qs)"
proof (induction qs arbitrary: ps)
  case (Cons q qs)
  then show ?case using plan_path_spec [of q cm sm sc ps] by simp
qed simp

lemma plan_paths_set: "set (plan_paths cm sm sc) = set (dkeys cm) \<union> set (dkeys sm) \<union> set (dkeys sc)"
  by (auto simp: plan_paths_def)

lemma plan_paths_sorted: "sorted (plan_paths cm sm sc)" "distinct (plan_paths cm sm sc)"
  by (simp_all add: plan_paths_def)

lemma plan_eq_spec: "compute_sync_plan cm sm sc = spec_plan cm sm sc (plan_paths cm sm sc)"
  using plan_fold_spec [of "plan_paths cm sm sc" cm sm sc "[]"]
  by (simp add: compute_sync_plan_def plan_paths_set spec_plan_def empty_plan_def)

lemmas plan_fields = plan_eq_spec spec_plan_def plan_paths_set

lemma clash_of_mem: "c \<in> set (clash_of cm sm sc p) \<longleftrightarrow>
    (\<exists>k. decision_at cm sm sc p = Clash k \<and>
      c = \<lparr>change_path = p, change_kind = k, action = ''merge''\<rparr>)"
  by (auto simp: clash_of_def split: decision.splits)

lemma conflict_paths: "map change_path (concat (map (clash_of cm sm sc) ps)) =
    filter (\<lambda>p. \<exists>k. decision_at cm sm sc p = Clash k) ps"
  by (induction ps) (auto simp: clash_of_def split: decision.splits)

section \<open>Properties\<close>

definition pending :: "sync_plan \<Rightarrow> bool" where
  "pending plan \<longleftrightarrow> to_upload plan \<noteq> [] \<or> to_download plan \<noteq> [] \<or> to_delete_local plan \<noteq> [] \<or>
     to_delete_remote plan \<noteq> [] \<or> conflicts plan \<noteq> []"

lemma plan_idle:
  "\<not> pending (compute_sync_plan cm sm sc) \<longleftrightarrow> (\<forall>p. hash_of cm p = hash_of sc p)"
proof -
  have keep: "decision_at cm sm sc p = Keep \<longleftrightarrow> hash_of cm p = hash_of sc p" for p
    by (auto simp: decision_at_def decide_def)
  have absent: "hash_of cm p = hash_of sc p" if "p \<notin> set (plan_paths cm sm sc)" for p
    using that by (simp add: plan_paths_set hash_of_def map_of_eq_None_iff [symmetric])
  have "\<not> pending (compute_sync_plan cm sm sc) \<longleftrightarrow>
      (\<forall>p\<in>set (plan_paths cm sm sc). decision_at cm sm sc p = Keep)"
    by (auto simp: pending_def plan_eq_spec spec_plan_def filter_empty_conv clash_of_def
        split: decision.splits) (metis decision.exhaust)
  then show ?thesis using keep absent by blast
qed

text \<open>
  C4. The branches of \<open>compute_sync_plan\<close> implement the three-way rule: the plan is the one that
  follows \<open>decide\<close> for every path of the three maps, in code point order.
\<close>

theorem plan_implements_decide:
  "compute_sync_plan cm sm sc =
     spec_plan cm sm sc (sorted_list_of_set (set (dkeys cm) \<union> set (dkeys sm) \<union> set (dkeys sc)))"
proof -
  have "plan_paths cm sm sc =
      sorted_list_of_set (set (dkeys cm) \<union> set (dkeys sm) \<union> set (dkeys sc))"
    using plan_paths_sorted [of cm sm sc] plan_paths_set [of cm sm sc]
    by (metis sorted_list_of_set.idem_if_sorted_distinct)
  then show ?thesis by (simp add: plan_eq_spec)
qed

text \<open>
  C8. Every path of the three maps is in exactly one list of the plan, and no list has a path
  twice or a path of its own.
\<close>

theorem plan_partitions_paths:
  "let plan = compute_sync_plan cm sm sc;
       all = to_upload plan @ to_download plan @ to_delete_remote plan @ to_delete_local plan @
             map change_path (conflicts plan) @ no_change plan
   in distinct all \<and> set all = set (dkeys cm) \<union> set (dkeys sm) \<union> set (dkeys sc)"
proof -
  define ps where "ps = plan_paths cm sm sc"
  have "distinct ps" by (simp add: ps_def plan_paths_sorted)
  moreover have "\<And>p. decision_at cm sm sc p = Upload \<or> decision_at cm sm sc p = Download \<or>
      decision_at cm sm sc p = DeleteRemote \<or> decision_at cm sm sc p = DeleteLocal \<or>
      (\<exists>k. decision_at cm sm sc p = Clash k) \<or> decision_at cm sm sc p = Keep"
    by (metis decision.exhaust)
  ultimately show ?thesis
    unfolding Let_def plan_eq_spec spec_plan_def ps_def [symmetric] plan_paths_set [symmetric]
    by (auto simp: conflict_paths)
qed

text \<open>
  C7. No edit is lost by a planned transfer. What is uploaded or deleted on the server has not
  changed there since the last sync, what is downloaded or deleted on the client has not changed
  on the client since the last sync, and each such path did change on the other side.
\<close>

theorem plan_loses_no_edit:
  "let plan = compute_sync_plan cm sm sc in
   (\<forall>p\<in>set (to_upload plan). hash_of sc p = hash_of sm p \<and> hash_of cm p \<noteq> hash_of sm p \<and> hash_of cm p \<noteq> None) \<and>
   (\<forall>p\<in>set (to_delete_remote plan). hash_of sc p = hash_of sm p \<and> hash_of sc p \<noteq> None \<and> hash_of cm p = None) \<and>
   (\<forall>p\<in>set (to_download plan). hash_of cm p = hash_of sm p \<and> hash_of sc p \<noteq> hash_of sm p \<and> hash_of sc p \<noteq> None) \<and>
   (\<forall>p\<in>set (to_delete_local plan). hash_of cm p = hash_of sm p \<and> hash_of cm p \<noteq> None \<and> hash_of sc p = None) \<and>
   (\<forall>c\<in>set (conflicts plan). hash_of cm (change_path c) \<noteq> hash_of sm (change_path c) \<and>
      hash_of sc (change_path c) \<noteq> hash_of sm (change_path c) \<and>
      hash_of cm (change_path c) \<noteq> hash_of sc (change_path c))"
  unfolding Let_def plan_fields
  by (auto simp: clash_of_mem decision_at_def decide_def split: if_splits)

theorem plan_loses_no_edit_witness:
  "let e = (\<lambda>h. \<lparr>file_path = ''a'', content_hash = h, file_size = 1, file_mtime = []\<rparr>);
       plan = compute_sync_plan [(''a'', e ''2'')] [(''a'', e ''1'')] [(''a'', e ''1'')]
   in to_upload plan = [''a''] \<and>
     (\<forall>p\<in>set (to_upload plan). hash_of [(''a'', e ''1'')] p = hash_of [(''a'', e ''1'')] p \<and>
        hash_of [(''a'', e ''2'')] p \<noteq> hash_of [(''a'', e ''1'')] p)"
proof -
  define e where "e = (\<lambda>h. \<lparr>file_path = ''a'', content_hash = h, file_size = 1, file_mtime = []\<rparr>)"
  have "to_upload (compute_sync_plan [(''a'', e ''2'')] [(''a'', e ''1'')] [(''a'', e ''1'')]) = [''a'']"
    unfolding e_def by code_simp
  with plan_loses_no_edit [of "[(''a'', e ''2'')]" "[(''a'', e ''1'')]" "[(''a'', e ''1'')]"]
  show ?thesis unfolding Let_def e_def by simp
qed

text \<open>
  C9. The status is quiet exactly when client and server hold the same content under every path,
  whatever the manifest of the last sync says.
\<close>

theorem plan_idle_iff_equal:
  "\<not> pending (compute_sync_plan cm sm sc) \<longleftrightarrow> (\<forall>p. hash_of cm p = hash_of sc p)"
  by (rule plan_idle)

end
