(* ===== verification/PyData.thy ===== *)
theory PyData
  imports Prelude Complex_Main "HOL-Library.Product_Lexorder"
begin

text \<open>
  The Python objects that front matter (YAML) and \<^verbatim>\<open>labels.toml\<close> are read into, with Python's
  equality, sets and \<open>sorted\<close>. Mapping keys are strings. A date is its number of days since
  1970-01-01; a \<open>datetime\<close> is its wall-clock time in microseconds since 1970-01-01 and, when aware, its UTC
  offset in microseconds.

  The libraries outside the repository (python-frontmatter, tomllib/tomli_w, git, pendulum) and the
  Unicode tables are the fields of \<open>externals\<close>, an argument of every definition that uses them.
\<close>

datatype pyval =
  PNone | PBool bool | PInt int | PFloat rat | PStr str
  | PDate int | PDateTime int "int option"
  | PList "pyval list" | PDict "(string \<times> pyval) list"

type_synonym meta = "pyval dict"

text \<open>\<open>d.get(key)\<close>: \<open>None\<close> for an absent key.\<close>

definition mget :: "meta \<Rightarrow> str \<Rightarrow> pyval" where
  "mget d k = (case dget d k of None \<Rightarrow> PNone | Some v \<Rightarrow> v)"

section \<open>Equality\<close>

text \<open>\<open>bool\<close>, \<open>int\<close> and \<open>float\<close> compare by value.\<close>

fun num_of :: "pyval \<Rightarrow> rat option" where
  "num_of (PBool b) = Some (of_bool b)"
| "num_of (PInt i) = Some (of_int i)"
| "num_of (PFloat r) = Some r"
| "num_of _ = None"

fun py_eq :: "pyval \<Rightarrow> pyval \<Rightarrow> bool"
  and py_eqs :: "pyval list \<Rightarrow> pyval list \<Rightarrow> bool"
  and py_sub :: "(string \<times> pyval) list \<Rightarrow> (string \<times> pyval) list \<Rightarrow> bool" where
  "py_eq (PList xs) b = (case b of PList ys \<Rightarrow> py_eqs xs ys | _ \<Rightarrow> False)"
| "py_eq (PDict d) b = (case b of PDict e \<Rightarrow> length d = length e \<and> py_sub d e | _ \<Rightarrow> False)"
| "py_eq (PStr s) b = (b = PStr s)"
| "py_eq PNone b = (b = PNone)"
| "py_eq (PDate i) b = (b = PDate i)"
| "py_eq (PDateTime t z) b = (case b of
     PDateTime t' z' \<Rightarrow>
       (case (z, z') of
          (None, None) \<Rightarrow> t = t'
        | (Some o1, Some o2) \<Rightarrow> t - o1 = t' - o2
        | _ \<Rightarrow> False)
   | _ \<Rightarrow> False)"
| "py_eq a b = (num_of a = num_of b)"
| "py_eqs [] ys = (ys = [])"
| "py_eqs (x # xs) ys = (case ys of [] \<Rightarrow> False | y # ys' \<Rightarrow> py_eq x y \<and> py_eqs xs ys')"
| "py_sub [] e = True"
| "py_sub ((k, v) # d) e = (case map_of e k of None \<Rightarrow> False | Some w \<Rightarrow> py_eq v w \<and> py_sub d e)"

text \<open>\<open>bool(v)\<close>.\<close>

fun truthy :: "pyval \<Rightarrow> bool" where
  "truthy PNone = False"
| "truthy (PBool b) = b"
| "truthy (PInt i) = (i \<noteq> 0)"
| "truthy (PFloat r) = (r \<noteq> 0)"
| "truthy (PStr s) = (s \<noteq> [])"
| "truthy (PList xs) = (xs \<noteq> [])"
| "truthy (PDict d) = (d \<noteq> [])"
| "truthy _ = True"

lemma py_eq_PStr [simp]: "py_eq v (PStr s) \<longleftrightarrow> v = PStr s"
  by (cases v) auto

lemma py_eq_PNone [simp]: "py_eq v PNone \<longleftrightarrow> v = PNone"
  by (cases v) auto

lemma py_eqs_map_PStr [simp]: "py_eqs (map PStr xs) (map PStr ys) \<longleftrightarrow> xs = ys"
  by (induction xs arbitrary: ys) (auto split: list.splits)

section \<open>Sets and sorting\<close>

text \<open>A set is the list of its elements in insertion order, the first of equal elements kept.
  Lists and dictionaries are not hashable: \<open>set(xs)\<close> raises \<open>TypeError\<close>, here \<open>None\<close>.\<close>

fun hashable :: "pyval \<Rightarrow> bool" where
  "hashable (PList xs) = False"
| "hashable (PDict d) = False"
| "hashable _ = True"

definition py_mem :: "pyval \<Rightarrow> pyval list \<Rightarrow> bool" where
  "py_mem v xs = list_ex (\<lambda>x. py_eq x v) xs"

fun py_dedup :: "pyval list \<Rightarrow> pyval list \<Rightarrow> pyval list" where
  "py_dedup seen [] = []"
| "py_dedup seen (x # xs) =
     (if py_mem x seen then py_dedup seen xs else x # py_dedup (seen @ [x]) xs)"

definition py_set :: "pyval list \<Rightarrow> pyval list option" where
  "py_set xs = (if list_all hashable xs then Some (py_dedup [] xs) else None)"

definition set_minus :: "pyval list \<Rightarrow> pyval list \<Rightarrow> pyval list" where
  "set_minus a b = filter (\<lambda>x. \<not> py_mem x b) a"

definition set_or :: "pyval list \<Rightarrow> pyval list \<Rightarrow> pyval list" where
  "set_or a b = a @ filter (\<lambda>x. \<not> py_mem x a) b"

text \<open>\<open>sorted(s)\<close>: elements of two kinds that do not compare raise \<open>TypeError\<close>. The key orders
  the elements of one kind.\<close>

fun sort_kind :: "pyval \<Rightarrow> nat option" where
  "sort_kind (PStr s) = Some 0"
| "sort_kind (PDate d) = Some 2"
| "sort_kind (PDateTime t None) = Some 3"
| "sort_kind (PDateTime t (Some z)) = Some 4"
| "sort_kind v = (if num_of v = None then None else Some 1)"

fun sort_rank :: "pyval \<Rightarrow> rat \<times> string" where
  "sort_rank (PStr s) = (0, s)"
| "sort_rank (PDate d) = (of_int d, [])"
| "sort_rank (PDateTime t None) = (of_int t, [])"
| "sort_rank (PDateTime t (Some z)) = (of_int (t - z), [])"
| "sort_rank v = (case num_of v of Some r \<Rightarrow> (r, []) | None \<Rightarrow> (0, []))"

definition py_sorted :: "pyval list \<Rightarrow> pyval list option" where
  "py_sorted xs =
     (if length xs \<le> 1 then Some xs
      else if sort_kind (hd xs) \<noteq> None \<and> list_all (\<lambda>x. sort_kind x = sort_kind (hd xs)) xs
      then Some (sort_key sort_rank xs) else None)"

lemma py_mem_PStr [simp]: "py_mem (PStr s) xs \<longleftrightarrow> PStr s \<in> set xs"
  by (auto simp: py_mem_def list_ex_iff)

lemma py_dedup_PStr:
  "\<exists>ys. py_dedup (map PStr seen) (map PStr xs) = map PStr ys \<and> set ys = set xs - set seen \<and> distinct ys"
proof (induction xs arbitrary: seen)
  case (Cons x xs)
  show ?case
  proof (cases "x \<in> set seen")
    case True
    then show ?thesis using Cons.IH [of seen] by (auto simp: image_iff)
  next
    case False
    obtain ys where ys: "py_dedup (map PStr (seen @ [x])) (map PStr xs) = map PStr ys"
      "set ys = set xs - set (seen @ [x])" "distinct ys"
      using Cons.IH [of "seen @ [x]"] by blast
    have "py_dedup (map PStr seen) (map PStr (x # xs)) = map PStr (x # ys)"
      using False ys(1) by (simp add: image_iff)
    moreover have "set (x # ys) = set (x # xs) - set seen" "distinct (x # ys)"
      using ys(2,3) False by auto
    ultimately show ?thesis by blast
  qed
qed simp

lemma py_set_PStr:
  obtains ys where "py_set (map PStr xs) = Some (map PStr ys)" "set ys = set xs" "distinct ys"
  using py_dedup_PStr [of "[]" xs] by (auto simp: py_set_def list_all_iff)

lemma insort_key_map: "insort_key f (g x) (map g xs) = map g (insort_key (\<lambda>x. f (g x)) x xs)"
  by (induction xs) auto

lemma sort_key_map: "sort_key f (map g xs) = map g (sort_key (\<lambda>x. f (g x)) xs)"
  by (induction xs) (auto simp: insort_key_map)

lemma insort_rank_PStr: "insort_key (\<lambda>x. (0 :: rat, x)) y xs = insort y xs"
  for xs :: "str list"
  by (induction xs) (auto simp: less_eq_prod_def)

lemma py_sorted_PStr: "py_sorted (map PStr ys) = Some (map PStr (sort ys))"
proof -
  have "sort_key (\<lambda>x. (0 :: rat, x)) ys = sort ys"
    by (induction ys) (auto simp: insort_rank_PStr)
  then have sorted: "sort_key sort_rank (map PStr ys) = map PStr (sort ys)"
    by (simp only: sort_key_map sort_rank.simps)
  have short: "sort ys = ys" if "length ys \<le> 1"
    using that by (cases ys) simp_all
  have "sort_kind (hd (map PStr ys)) = Some 0" if "ys \<noteq> []"
    using that by (cases ys) simp_all
  moreover have "list_all (\<lambda>x. sort_kind x = Some 0) (map PStr ys)"
    by (simp add: list_all_iff)
  moreover have "ys \<noteq> []" if "\<not> length ys \<le> 1" using that by auto
  ultimately show ?thesis
    using short sorted by (cases "length ys \<le> 1") (simp_all add: py_sorted_def)
qed

lemma set_minus_PStr: "set_minus (map PStr xs) (map PStr ys) = map PStr (filter (\<lambda>x. x \<notin> set ys) xs)"
  by (induction xs) (auto simp: set_minus_def image_iff)

lemma set_or_PStr: "set_or (map PStr xs) (map PStr ys) = map PStr (xs @ filter (\<lambda>x. x \<notin> set xs) ys)"
  by (induction ys) (auto simp: set_or_def image_iff)

lemmas str_sets = py_sorted_PStr set_minus_PStr set_or_PStr

section \<open>Code outside the repository\<close>

datatype dump_result = Dumped str | YamlError | DumpRaises

datatype run_result = Ran int str str | RunTimeout | RunOSError

datatype pend_result = PendDateTime int int | PendDate int | PendOther | PendError

text \<open>
  \<open>fm_loads\<close> and \<open>fm_dumps\<close> are \<open>frontmatter.loads\<close> (\<open>None\<close>: a \<open>YAMLError\<close> or \<open>ValueError\<close>) and
  \<open>frontmatter.dumps(frontmatter.Post(body, **meta))\<close>; \<open>toml_labels\<close> is
  \<open>tomllib.loads(s).get("labels", {})\<close> (\<open>None\<close>: the text does not parse) and \<open>toml_dump_labels\<close> is
  \<open>tomli_w.dumps({"labels": d})\<close>; \<open>git_merge_file\<close> is \<open>git merge-file -p\<close> on base, ours,
  theirs: exit code, output and error output, or the failure to run it. \<open>pendulum_parse\<close> is \<open>pendulum.parse(s, tz=tz, strict=False)\<close> and
  \<open>pendulum_offset\<close> the UTC offset of a zone at a wall-clock time. \<open>str_title\<close> is \<open>str.title\<close>,
  which needs the Unicode case tables, and \<open>py_str\<close> is \<open>str(v)\<close> on values that are no strings.
\<close>

record externals =
  fm_loads :: "str \<Rightarrow> (meta \<times> str) option"
  fm_dumps :: "meta \<Rightarrow> str \<Rightarrow> dump_result"
  toml_labels :: "str \<Rightarrow> pyval option"
  toml_dump_labels :: "pyval \<Rightarrow> str option"
  git_merge_file :: "str \<Rightarrow> str \<Rightarrow> str \<Rightarrow> run_result"
  pendulum_parse :: "str \<Rightarrow> str \<Rightarrow> pend_result"
  pendulum_offset :: "str \<Rightarrow> int \<Rightarrow> int"
  str_title :: "str \<Rightarrow> str"
  py_str :: "pyval \<Rightarrow> str"

end
