(* ===== verification/GitService.thy ===== *)
theory GitService
  imports PyData
begin

text \<open>
  The git operations of \<^verbatim>\<open>backend/services/git_service.py\<close>. Running git is a parameter: \<open>git r args\<close>
  is the repository after \<open>git args\<close> and what the process returned. The three ways a run can fail
  are \<open>Inl\<close>.
\<close>

datatype git_error = CalledProcessError | TimeoutExpired | GitOSError

type_synonym 'g git_run = "'g \<Rightarrow> str list \<Rightarrow> 'g \<times> run_result"

text \<open>\<open>_run\<close>, with \<open>check\<close>: a non-zero exit raises.\<close>

definition run_result_of :: "bool \<Rightarrow> run_result \<Rightarrow> git_error + (int \<times> str \<times> str)" where
  "run_result_of check r = (case r of
     Ran returncode stdout stderr \<Rightarrow>
       if check \<and> returncode \<noteq> 0 then Inl CalledProcessError else Inr (returncode, stdout, stderr)
   | RunTimeout \<Rightarrow> Inl TimeoutExpired
   | RunOSError \<Rightarrow> Inl GitOSError)"

definition run_git :: "'g git_run \<Rightarrow> bool \<Rightarrow> str list \<Rightarrow> 'g \<Rightarrow> 'g \<times> (git_error + (int \<times> str \<times> str))" where
  "run_git git check args r = (let (r', result) = git r args in (r', run_result_of check result))"

text \<open>\<open>_COMMIT_RE = ^[0-9a-f]{4,40}$\<close>; \<open>$\<close> also matches before a final newline.\<close>

definition hex_digit :: "char \<Rightarrow> bool" where
  "hex_digit c \<longleftrightarrow> (let n = of_char c :: nat in (48 \<le> n \<and> n \<le> 57) \<or> (97 \<le> n \<and> n \<le> 102))"

definition commit_re :: "str \<Rightarrow> bool" where
  "commit_re s = (let h = removesuffix s [CHR 0x0A] in
     list_all hex_digit h \<and> 4 \<le> length h \<and> length h \<le> 40)"

definition head_commit :: "'g git_run \<Rightarrow> 'g \<Rightarrow> 'g \<times> (git_error + str option)" where
  "head_commit git r = (case run_git git False [''rev-parse'', ''HEAD''] r of
     (r', Inl e) \<Rightarrow> (r', Inl e)
   | (r', Inr (returncode, stdout, stderr)) \<Rightarrow>
       (r', Inr (if returncode = 0 then Some (strip stdout) else None)))"

definition commit_exists :: "'g git_run \<Rightarrow> str \<Rightarrow> 'g \<Rightarrow> 'g \<times> (git_error + bool)" where
  "commit_exists git commit_hash r =
     (if \<not> commit_re commit_hash then (r, Inr False)
      else (case run_git git False [''cat-file'', ''-t'', commit_hash] r of
        (r', Inl e) \<Rightarrow> (r', Inl e)
      | (r', Inr (returncode, stdout, stderr)) \<Rightarrow>
          (r', Inr (returncode = 0 \<and> strip stdout = ''commit''))))"

definition show_file_at_commit ::
  "'g git_run \<Rightarrow> str \<Rightarrow> str \<Rightarrow> 'g \<Rightarrow> 'g \<times> (git_error + str option)" where
  "show_file_at_commit git commit_hash name r =
     (if \<not> commit_re commit_hash then (r, Inr None)
      else (case run_git git False [''show'', commit_hash @ '':'' @ name] r of
        (r', Inl e) \<Rightarrow> (r', Inl e)
      | (r', Inr (returncode, stdout, stderr)) \<Rightarrow>
          (r', if returncode = 0 then Inr (Some stdout)
               else if returncode = 128 \<and>
                 (sublist ''does not exist'' stderr \<or> sublist ''but not in'' stderr) then Inr None
               else Inl CalledProcessError)))"

definition commit_all :: "'g git_run \<Rightarrow> str \<Rightarrow> 'g \<Rightarrow> 'g \<times> (git_error + str option)" where
  "commit_all git message r =
     (case run_git git True [''add'', ''-A''] r of
        (r1, Inl e) \<Rightarrow> (r1, Inl e)
      | (r1, Inr _) \<Rightarrow>
     (case run_git git False [''diff'', ''--cached'', ''--quiet''] r1 of
        (r2, Inl e) \<Rightarrow> (r2, Inl e)
      | (r2, Inr (returncode, _)) \<Rightarrow>
          if returncode = 0 then (r2, Inr None)
          else (case run_git git True [''commit'', ''-m'', message] r2 of
                  (r3, Inl e) \<Rightarrow> (r3, Inl e)
                | (r3, Inr _) \<Rightarrow> head_commit git r3)))"

definition try_commit :: "'g git_run \<Rightarrow> str \<Rightarrow> 'g \<Rightarrow> 'g \<times> str option" where
  "try_commit git message r = (case commit_all git message r of
     (r', Inl e) \<Rightarrow> (r', None) | (r', Inr h) \<Rightarrow> (r', h))"

text \<open>\<open>merge_file_content\<close>: exit codes 1 to 127 count conflicts, the others but 0 are failures.\<close>

definition merge_file_content ::
  "externals \<Rightarrow> str \<Rightarrow> str \<Rightarrow> str \<Rightarrow> git_error + (str \<times> bool)" where
  "merge_file_content X base ours theirs =
     (case run_result_of False (git_merge_file X base ours theirs) of
        Inl e \<Rightarrow> Inl e
      | Inr (returncode, stdout, stderr) \<Rightarrow>
          if returncode < 0 \<or> returncode \<ge> 128 then Inl CalledProcessError
          else Inr (stdout, returncode > 0))"

end
