(* ===== verification/SyncMerge.thy ===== *)
theory SyncMerge
  imports PyData GitService
begin

text \<open>
  The merges of \<^verbatim>\<open>backend/services/sync_service.py\<close>: front matter, \<^verbatim>\<open>labels.toml\<close> and whole
  posts. \<open>None\<close> stands for a \<open>TypeError\<close> or \<open>AttributeError\<close> the code lets escape (its callers
  turn it into a failed sync). Python does not fix the order in which \<open>merge_frontmatter\<close> visits a
  set of keys, so that order is an argument.
\<close>

section \<open>Three-way set merge\<close>

text \<open>\<open>(base | server_added | client_added) - server_removed - client_removed\<close>.\<close>

definition merged_set :: "pyval list \<Rightarrow> pyval list \<Rightarrow> pyval list \<Rightarrow> pyval list" where
  "merged_set base_set server_set client_set =
     (let server_added = set_minus server_set base_set;
          server_removed = set_minus base_set server_set;
          client_added = set_minus client_set base_set;
          client_removed = set_minus base_set client_set
      in set_minus (set_minus (set_or (set_or base_set server_added) client_added) server_removed)
           client_removed)"

definition set_merge :: "pyval list \<Rightarrow> pyval list \<Rightarrow> pyval list \<Rightarrow> pyval list option" where
  "set_merge base server client =
     Option.bind (py_set base) (\<lambda>base_set.
     Option.bind (py_set server) (\<lambda>server_set.
     Option.bind (py_set client) (\<lambda>client_set.
       py_sorted (merged_set base_set server_set client_set))))"

text \<open>The double loop of \<open>_ordered_set_merge\<close>: keep the merged items in their first order.\<close>

fun take_ordered :: "pyval list \<Rightarrow> pyval list \<Rightarrow> pyval list \<Rightarrow> pyval list" where
  "take_ordered items seen [] = []"
| "take_ordered items seen (v # vs) =
     (if py_mem v items \<and> \<not> py_mem v seen then v # take_ordered items (seen @ [v]) vs
      else take_ordered items seen vs)"

definition ordered_set_merge :: "pyval list \<Rightarrow> pyval list \<Rightarrow> pyval list \<Rightarrow> pyval list option" where
  "ordered_set_merge base server client =
     (case set_merge base server client of
        None \<Rightarrow> None
      | Some merged_items \<Rightarrow>
          if merged_items = [] then Some []
          else Some (take_ordered merged_items []
            (if py_eqs server base \<and> \<not> py_eqs client base then client @ server @ base
             else if py_eqs client base \<and> \<not> py_eqs server base then server @ client @ base
             else if py_eqs client server then client @ server @ base
             else base @ server @ client)))"

section \<open>Front matter\<close>

record fm_merge_result =
  merged :: meta
  field_conflicts :: "str list"

definition scalar_fields :: "str list" where
  "scalar_fields = [''title'', ''author'', ''created_at'', ''draft'']"

definition set_unless_none :: "str \<Rightarrow> pyval \<Rightarrow> meta \<Rightarrow> meta" where
  "set_unless_none k v d = (if v = PNone then d else dset k v d)"

definition labels_set :: "pyval \<Rightarrow> pyval list option" where
  "labels_set v = (case v of PList xs \<Rightarrow> py_set xs | _ \<Rightarrow> Some [])"

definition merge_labels_field :: "pyval \<Rightarrow> pyval \<Rightarrow> pyval \<Rightarrow> pyval option" where
  "merge_labels_field base_val server_val client_val =
     Option.bind (labels_set base_val) (\<lambda>base_set.
     Option.bind (labels_set server_val) (\<lambda>server_set.
     Option.bind (labels_set client_val) (\<lambda>client_set.
       map_option PList (py_sorted (merged_set base_set server_set client_set)))))"

text \<open>One round of the loop over the keys.\<close>

definition merge_field :: "meta \<Rightarrow> meta \<Rightarrow> meta \<Rightarrow> str \<Rightarrow> fm_merge_result \<Rightarrow> fm_merge_result option" where
  "merge_field base server client key r =
     (let base_val = mget base key; server_val = mget server key; client_val = mget client key in
      if key = ''labels'' then
        map_option (\<lambda>v. r\<lparr>merged := dset ''labels'' v (merged r)\<rparr>)
          (merge_labels_field base_val server_val client_val)
      else
        let server_changed = \<not> py_eq server_val base_val;
            client_changed = \<not> py_eq client_val base_val
        in Some (
          if \<not> server_changed \<and> \<not> client_changed then
            r\<lparr>merged := set_unless_none key base_val (merged r)\<rparr>
          else if server_changed \<and> \<not> client_changed then
            r\<lparr>merged := set_unless_none key server_val (merged r)\<rparr>
          else if \<not> server_changed \<and> client_changed then
            r\<lparr>merged := set_unless_none key client_val (merged r)\<rparr>
          else if py_eq server_val client_val then
            r\<lparr>merged := set_unless_none key server_val (merged r)\<rparr>
          else
            r\<lparr>merged := set_unless_none key server_val (merged r),
              field_conflicts := field_conflicts r @ (if key \<in> set scalar_fields then [key] else [])\<rparr>))"

fun merge_fields :: "meta \<Rightarrow> meta \<Rightarrow> meta \<Rightarrow> str list \<Rightarrow> fm_merge_result \<Rightarrow> fm_merge_result option" where
  "merge_fields base server client [] r = Some r"
| "merge_fields base server client (key # keys) r =
     Option.bind (merge_field base server client key r) (merge_fields base server client keys)"

text \<open>The set of keys the loop runs over; \<open>order\<close> lists it in the order of the run.\<close>

definition all_keys :: "meta \<Rightarrow> meta \<Rightarrow> meta \<Rightarrow> str set" where
  "all_keys base server client =
     (set (dkeys base) \<union> set (dkeys server) \<union> set (dkeys client)) - {''modified_at''}"

definition merge_frontmatter ::
  "str list \<Rightarrow> meta option \<Rightarrow> meta \<Rightarrow> meta \<Rightarrow> fm_merge_result option" where
  "merge_frontmatter order base server client =
     (case base of
        None \<Rightarrow> Some \<lparr>merged = server,
          field_conflicts = filter (\<lambda>k. has_key server k \<and> has_key client k \<and>
            \<not> py_eq (mget server k) (mget client k)) scalar_fields\<rparr>
      | Some base \<Rightarrow> merge_fields base server client order \<lparr>merged = [], field_conflicts = []\<rparr>)"

section \<open>Labels\<close>

definition get_label_list :: "pyval \<Rightarrow> str \<Rightarrow> pyval list" where
  "get_label_list label key = (case label of
     PDict d \<Rightarrow> (case dget d key of Some (PList xs) \<Rightarrow> xs | _ \<Rightarrow> [])
   | _ \<Rightarrow> [])"

definition get_label_parents :: "pyval \<Rightarrow> pyval list" where
  "get_label_parents label = (case label of
     PDict d \<Rightarrow>
       (let parents = get_label_list label ''parents'' in
        case dget d ''parent'' of Some (PStr p) \<Rightarrow> PStr p # parents | _ \<Rightarrow> parents)
   | _ \<Rightarrow> [])"

record labels_merge_result =
  labels_content :: str
  labels_conflicts :: "str list"

text \<open>\<open>set(data)\<close> for the value under \<open>labels\<close>: its keys, elements or characters.\<close>

fun label_ids :: "pyval \<Rightarrow> pyval list option" where
  "label_ids (PDict d) = py_set (map (\<lambda>(k, v). PStr k) d)"
| "label_ids (PList xs) = py_set xs"
| "label_ids (PStr s) = py_set (map PStr (code_points s))"
| "label_ids _ = None"

text \<open>\<open>data.get(label_id, {})\<close>, an \<open>AttributeError\<close> when \<open>data\<close> is no mapping.\<close>

fun label_entry :: "pyval \<Rightarrow> pyval \<Rightarrow> pyval option" where
  "label_entry (PDict d) (PStr k) = Some (case dget d k of Some v \<Rightarrow> v | None \<Rightarrow> PDict [])"
| "label_entry (PDict d) _ = Some (PDict [])"
| "label_entry _ _ = None"

definition merge_label :: "pyval \<Rightarrow> pyval \<Rightarrow> pyval \<Rightarrow> pyval \<Rightarrow> pyval option" where
  "merge_label base_data server_data client_data label_id =
     Option.bind (label_entry base_data label_id) (\<lambda>base_label.
     Option.bind (label_entry server_data label_id) (\<lambda>server_label.
     Option.bind (label_entry client_data label_id) (\<lambda>client_label.
     Option.bind (ordered_set_merge (get_label_list base_label ''names'')
       (get_label_list server_label ''names'') (get_label_list client_label ''names'')) (\<lambda>merged_names.
     Option.bind (ordered_set_merge (get_label_parents base_label)
       (get_label_parents server_label) (get_label_parents client_label)) (\<lambda>merged_parents.
     Some (PDict ([(''names'', PList merged_names)] @
       (if length merged_parents = 1 then [(''parent'', hd merged_parents)]
        else if length merged_parents > 1 then [(''parents'', PList merged_parents)] else [])))))))) "

fun merge_label_entries :: "pyval \<Rightarrow> pyval \<Rightarrow> pyval \<Rightarrow> pyval list \<Rightarrow> (string \<times> pyval) list option" where
  "merge_label_entries b s c [] = Some []"
| "merge_label_entries b s c (i # ids) =
     Option.bind (merge_label b s c i) (\<lambda>entry.
     Option.bind (case i of PStr k \<Rightarrow> Some k | _ \<Rightarrow> None) (\<lambda>k.
     map_option (\<lambda>rest. (k, entry) # rest) (merge_label_entries b s c ids)))"

definition merge_labels_toml ::
  "externals \<Rightarrow> str option \<Rightarrow> str \<Rightarrow> str \<Rightarrow> labels_merge_result option" where
  "merge_labels_toml X base server client =
     (case toml_labels X server of
        None \<Rightarrow> Some \<lparr>labels_content = client, labels_conflicts = [''_parse_error'']\<rparr>
      | Some server_data \<Rightarrow>
     (case base of
        None \<Rightarrow> Some \<lparr>labels_content = client, labels_conflicts = [''_no_base'']\<rparr>
      | Some base_text \<Rightarrow>
     (case toml_labels X base_text of
        None \<Rightarrow> Some \<lparr>labels_content = client, labels_conflicts = [''_parse_error'']\<rparr>
      | Some base_data \<Rightarrow>
     (case toml_labels X client of
        None \<Rightarrow> Some \<lparr>labels_content = client, labels_conflicts = [''_parse_error'']\<rparr>
      | Some client_data \<Rightarrow>
          Option.bind (label_ids base_data) (\<lambda>base_ids.
          Option.bind (label_ids server_data) (\<lambda>server_ids.
          Option.bind (label_ids client_data) (\<lambda>client_ids.
          Option.bind (py_sorted (merged_set base_ids server_ids client_ids)) (\<lambda>merged_ids.
          Option.bind (merge_label_entries base_data server_data client_data merged_ids) (\<lambda>merged_labels.
          map_option (\<lambda>content. \<lparr>labels_content = content, labels_conflicts = []\<rparr>)
            (toml_dump_labels X (PDict merged_labels)))))))))))"

section \<open>Posts\<close>

record post_merge_result =
  merged_content :: str
  body_conflicted :: bool
  post_field_conflicts :: "str list"

definition merge_bodies :: "externals \<Rightarrow> str \<Rightarrow> str \<Rightarrow> str \<Rightarrow> str \<times> bool" where
  "merge_bodies X base_body server_body client_body =
     (if server_body = client_body then (server_body, False)
      else if server_body = base_body then (client_body, False)
      else if client_body = base_body then (server_body, False)
      else (case merge_file_content X base_body server_body client_body of
              Inr r \<Rightarrow> r
            | Inl _ \<Rightarrow> (server_body, True)))"

definition merge_post_file ::
  "externals \<Rightarrow> str list \<Rightarrow> str option \<Rightarrow> str \<Rightarrow> str \<Rightarrow> post_merge_result option" where
  "merge_post_file X order base server client =
     (case (fm_loads X server, fm_loads X client) of
        (Some (server_meta, server_body), Some (client_meta, client_body)) \<Rightarrow>
          (case base of
             None \<Rightarrow>
               map_option (\<lambda>fm_result. \<lparr>merged_content = server, body_conflicted = True,
                   post_field_conflicts = field_conflicts fm_result\<rparr>)
                 (merge_frontmatter order None server_meta client_meta)
           | Some base_text \<Rightarrow>
          (case fm_loads X base_text of
             None \<Rightarrow> Some \<lparr>merged_content = server, body_conflicted = True, post_field_conflicts = []\<rparr>
           | Some (base_meta, base_body) \<Rightarrow>
               Option.bind (merge_frontmatter order (Some base_meta) server_meta client_meta) (\<lambda>fm_result.
                 let (merged_body, conflicted) = merge_bodies X base_body server_body client_body in
                 case fm_dumps X (merged fm_result) merged_body of
                   Dumped content \<Rightarrow> Some \<lparr>merged_content = content @ [CHR 0x0A],
                     body_conflicted = conflicted, post_field_conflicts = field_conflicts fm_result\<rparr>
                 | YamlError \<Rightarrow> Some \<lparr>merged_content = server, body_conflicted = True,
                     post_field_conflicts = field_conflicts fm_result\<rparr>
                 | DumpRaises \<Rightarrow> None)))
      | _ \<Rightarrow> Some \<lparr>merged_content = server, body_conflicted = True, post_field_conflicts = []\<rparr>)"

section \<open>Facts about the merges\<close>

lemma merged_set_PStr:
  "\<exists>ys. merged_set (map PStr b) (map PStr s) (map PStr c) = map PStr ys \<and>
     (distinct b \<longrightarrow> distinct s \<longrightarrow> distinct c \<longrightarrow> distinct ys) \<and>
     set ys = {x. if x \<in> set b then x \<in> set s \<and> x \<in> set c else x \<in> set s \<or> x \<in> set c}"
proof -
  let ?u = "b @ filter (\<lambda>x. x \<notin> set b) (filter (\<lambda>x. x \<notin> set b) s)"
  let ?v = "?u @ filter (\<lambda>x. x \<notin> set ?u) (filter (\<lambda>x. x \<notin> set b) c)"
  let ?w = "filter (\<lambda>x. x \<notin> set (filter (\<lambda>x. x \<notin> set s) b)) ?v"
  let ?y = "filter (\<lambda>x. x \<notin> set (filter (\<lambda>x. x \<notin> set c) b)) ?w"
  have "merged_set (map PStr b) (map PStr s) (map PStr c) = map PStr ?y"
    by (simp only: merged_set_def Let_def set_minus_PStr set_or_PStr)
  moreover have "distinct b \<longrightarrow> distinct s \<longrightarrow> distinct c \<longrightarrow> distinct ?y" by auto
  moreover have "set ?y = {x. if x \<in> set b then x \<in> set s \<and> x \<in> set c else x \<in> set s \<or> x \<in> set c}"
    by auto
  ultimately show ?thesis by blast
qed

text \<open>The rule a three-way set merge follows: an element the base has stays if both sides kept it,
  any other is in the result if some side has it.\<close>

definition three_way :: "'a set \<Rightarrow> 'a set \<Rightarrow> 'a set \<Rightarrow> 'a set" where
  "three_way b s c = {x. if x \<in> b then x \<in> s \<and> x \<in> c else x \<in> s \<or> x \<in> c}"

lemma set_merge_PStr:
  obtains ys where "set_merge (map PStr b) (map PStr s) (map PStr c) = Some (map PStr ys)"
    "sorted ys" "distinct ys" "set ys = three_way (set b) (set s) (set c)"
proof -
  obtain b' where b': "py_set (map PStr b) = Some (map PStr b')" "set b' = set b" "distinct b'"
    by (rule py_set_PStr)
  obtain s' where s': "py_set (map PStr s) = Some (map PStr s')" "set s' = set s" "distinct s'"
    by (rule py_set_PStr)
  obtain c' where c': "py_set (map PStr c) = Some (map PStr c')" "set c' = set c" "distinct c'"
    by (rule py_set_PStr)
  obtain ys where ys: "merged_set (map PStr b') (map PStr s') (map PStr c') = map PStr ys"
    "distinct ys" "set ys = three_way (set b) (set s) (set c)"
    using merged_set_PStr [of b' s' c'] b' s' c' by (auto simp: three_way_def)
  show thesis
    by (rule that [of "sort ys"]) (simp_all add: set_merge_def b' s' c' ys py_sorted_PStr)
qed

lemma take_ordered_PStr:
  "\<exists>ys. take_ordered (map PStr items) (map PStr seen) (map PStr vs) = map PStr ys \<and>
     distinct ys \<and> set ys = set vs \<inter> set items - set seen"
proof (induction vs arbitrary: seen)
  case (Cons v vs)
  show ?case
  proof (cases "v \<in> set items \<and> v \<notin> set seen")
    case True
    obtain ys where "take_ordered (map PStr items) (map PStr (seen @ [v])) (map PStr vs) = map PStr ys"
      "distinct ys" "set ys = set vs \<inter> set items - set (seen @ [v])"
      using Cons.IH [of "seen @ [v]"] by blast
    with True show ?thesis by (intro exI [of _ "v # ys"]) auto
  next
    case False
    with Cons.IH [of seen] show ?thesis by (auto simp: image_iff)
  qed
qed simp

lemma take_ordered_append:
  "take_ordered items seen (xs @ ys) =
     take_ordered items seen xs @ take_ordered items (seen @ take_ordered items seen xs) ys"
  by (induction xs arbitrary: seen) auto

lemma take_ordered_all:
  "distinct vs \<Longrightarrow> set vs \<subseteq> set items \<Longrightarrow> set vs \<inter> set seen = {} \<Longrightarrow>
   take_ordered (map PStr items) (map PStr seen) (map PStr vs) = map PStr vs"
proof (induction vs arbitrary: seen)
  case (Cons v vs)
  then show ?case using Cons.IH [of "seen @ [v]"] by auto
qed simp

lemma take_ordered_none:
  assumes "set vs \<inter> set items \<subseteq> set seen"
  shows "take_ordered (map PStr items) (map PStr seen) (map PStr vs) = []"
proof -
  obtain ys where ys: "take_ordered (map PStr items) (map PStr seen) (map PStr vs) = map PStr ys"
    "distinct ys" "set ys = set vs \<inter> set items - set seen"
    using take_ordered_PStr [of items seen vs] by blast
  have "set ys = {}" unfolding ys(3) using assms by blast
  with ys(1) show ?thesis by simp
qed

lemma take_ordered_head:
  assumes "distinct vs" and "set vs = set items"
  shows "take_ordered (map PStr items) [] (map PStr vs @ map PStr ws) = map PStr vs"
proof -
  have "take_ordered (map PStr items) [] (map PStr vs) = map PStr vs"
    using take_ordered_all [of vs items "[]"] assms by simp
  then show ?thesis
    using take_ordered_none [of ws items vs] assms by (simp add: take_ordered_append)
qed

lemma three_way_unchanged [simp]:
  "three_way b b c = c" "three_way b s b = s" "three_way b s s = s"
  by (auto simp: three_way_def)

lemma three_way_finite [simp]:
  "finite (three_way (set b) (set s) (set c))"
  by (rule finite_subset [of _ "set s \<union> set c"]) (auto simp: three_way_def)

definition str_labels :: "pyval \<Rightarrow> bool" where
  "str_labels v \<longleftrightarrow> (\<forall>xs. v = PList xs \<longrightarrow> list_all (\<lambda>x. case x of PStr _ \<Rightarrow> True | _ \<Rightarrow> False) xs)"

fun str_elems :: "pyval \<Rightarrow> str set" where
  "str_elems (PList xs) = {s. PStr s \<in> set xs}"
| "str_elems _ = {}"

lemma str_list_map:
  "list_all (\<lambda>x. case x of PStr _ \<Rightarrow> True | _ \<Rightarrow> False) xs \<Longrightarrow> \<exists>ys. xs = map PStr ys"
proof (induction xs)
  case (Cons x xs)
  then obtain y ys where "x = PStr y" "xs = map PStr ys" by (auto split: pyval.splits)
  then have "x # xs = map PStr (y # ys)" by simp
  then show ?case by (rule exI)
qed simp

lemma labels_set_strs:
  assumes "str_labels v"
  obtains ys where "labels_set v = Some (map PStr ys)" "set ys = str_elems v" "distinct ys"
proof (cases "\<exists>xs. v = PList xs")
  case True
  then obtain xs where v: "v = PList xs" by blast
  with assms obtain zs where zs: "xs = map PStr zs"
    using str_list_map by (auto simp: str_labels_def)
  obtain ys where "py_set (map PStr zs) = Some (map PStr ys)" "set ys = set zs" "distinct ys"
    by (rule py_set_PStr)
  with v zs show thesis by (intro that [of ys]) (auto simp: labels_set_def)
next
  case False
  then have "labels_set v = Some (map PStr [])" "str_elems v = {}"
    by (cases v; simp add: labels_set_def)+
  then show thesis by (intro that [of "[]"]) simp_all
qed

lemma merge_labels_field_strs:
  assumes "str_labels b" "str_labels s" "str_labels c"
  shows "merge_labels_field b s c =
    Some (PList (map PStr (sorted_list_of_set (three_way (str_elems b) (str_elems s) (str_elems c)))))"
proof -
  obtain b' where b': "labels_set b = Some (map PStr b')" "set b' = str_elems b" "distinct b'"
    using labels_set_strs [OF assms(1)] .
  obtain s' where s': "labels_set s = Some (map PStr s')" "set s' = str_elems s" "distinct s'"
    using labels_set_strs [OF assms(2)] .
  obtain c' where c': "labels_set c = Some (map PStr c')" "set c' = str_elems c" "distinct c'"
    using labels_set_strs [OF assms(3)] .
  obtain ys where ys: "merged_set (map PStr b') (map PStr s') (map PStr c') = map PStr ys"
    "distinct ys" "set ys = three_way (str_elems b) (str_elems s) (str_elems c)"
    using merged_set_PStr [of b' s' c'] b' s' c' by (auto simp: three_way_def)
  have "sort ys = sorted_list_of_set (three_way (str_elems b) (str_elems s) (str_elems c))"
    using ys(2,3) by (metis sorted_list_of_set_sort_remdups distinct_remdups_id)
  then show ?thesis by (simp add: merge_labels_field_def b' s' c' ys(1) py_sorted_PStr)
qed

text \<open>The three-way rule for one scalar field: a side equal to the base follows the other.\<close>

definition scalar_merge :: "pyval \<Rightarrow> pyval \<Rightarrow> pyval \<Rightarrow> pyval" where
  "scalar_merge b s c = (if py_eq s b then (if py_eq c b then b else c) else s)"

definition scalar_clash :: "pyval \<Rightarrow> pyval \<Rightarrow> pyval \<Rightarrow> bool" where
  "scalar_clash b s c \<longleftrightarrow> \<not> py_eq s b \<and> \<not> py_eq c b \<and> \<not> py_eq s c"

definition merged_value :: "meta \<Rightarrow> meta \<Rightarrow> meta \<Rightarrow> str \<Rightarrow> pyval" where
  "merged_value base server client k =
     (if k = ''labels'' then PList (map PStr (sorted_list_of_set (three_way
        (str_elems (mget base k)) (str_elems (mget server k)) (str_elems (mget client k)))))
      else scalar_merge (mget base k) (mget server k) (mget client k))"

lemma mget_set_unless_none:
  "dget d k = None \<Longrightarrow> mget (set_unless_none k v d) x = (if x = k then v else mget d x)"
  by (simp add: set_unless_none_def mget_def)

lemma dget_set_unless_none: "x \<noteq> k \<Longrightarrow> dget (set_unless_none k v d) x = dget d x"
  by (simp add: set_unless_none_def)

definition str_label_fields :: "meta \<Rightarrow> meta \<Rightarrow> meta \<Rightarrow> bool" where
  "str_label_fields b s c \<longleftrightarrow> str_labels (mget b ''labels'') \<and> str_labels (mget s ''labels'') \<and>
     str_labels (mget c ''labels'')"

lemma merge_field_step:
  assumes "str_label_fields b s c" and "dget (merged r) k = None"
  obtains r' where "merge_field b s c k r = Some r'"
    "\<And>x. mget (merged r') x = (if x = k then merged_value b s c k else mget (merged r) x)"
    "\<And>x. x \<noteq> k \<Longrightarrow> dget (merged r') x = dget (merged r) x"
    "field_conflicts r' = field_conflicts r @
       (if k \<in> set scalar_fields \<and> scalar_clash (mget b k) (mget s k) (mget c k) then [k] else [])"
proof (cases "k = ''labels''")
  case True
  with assms(1) have "merge_field b s c k r = Some (r\<lparr>merged := dset ''labels'' (merged_value b s c k) (merged r)\<rparr>)"
    by (simp add: merge_field_def str_label_fields_def merge_labels_field_strs merged_value_def)
  with True show thesis
    by (intro that [of "r\<lparr>merged := dset ''labels'' (merged_value b s c k) (merged r)\<rparr>"])
      (auto simp: mget_def scalar_fields_def)
next
  case False
  let ?v = "merged_value b s c k"
  let ?cs = "if k \<in> set scalar_fields \<and> scalar_clash (mget b k) (mget s k) (mget c k) then [k] else []"
  have "merge_field b s c k r =
      Some (r\<lparr>merged := set_unless_none k ?v (merged r), field_conflicts := field_conflicts r @ ?cs\<rparr>)"
    using False by (simp add: merge_field_def merged_value_def scalar_merge_def scalar_clash_def Let_def)
  then show thesis
    by (rule that) (simp_all add: mget_set_unless_none [OF assms(2)] dget_set_unless_none)
qed

lemma merge_fields_spec:
  assumes "str_label_fields b s c"
  shows "distinct ks \<Longrightarrow> \<forall>k\<in>set ks. dget (merged r) k = None \<Longrightarrow>
    \<exists>r'. merge_fields b s c ks r = Some r' \<and>
      (\<forall>x. mget (merged r') x = (if x \<in> set ks then merged_value b s c x else mget (merged r) x)) \<and>
      field_conflicts r' = field_conflicts r @
        filter (\<lambda>k. k \<in> set scalar_fields \<and> scalar_clash (mget b k) (mget s k) (mget c k)) ks"
proof (induction ks arbitrary: r)
  case (Cons k ks)
  obtain r1 where r1: "merge_field b s c k r = Some r1"
    "\<And>x. mget (merged r1) x = (if x = k then merged_value b s c k else mget (merged r) x)"
    "\<And>x. x \<noteq> k \<Longrightarrow> dget (merged r1) x = dget (merged r) x"
    "field_conflicts r1 = field_conflicts r @
       (if k \<in> set scalar_fields \<and> scalar_clash (mget b k) (mget s k) (mget c k) then [k] else [])"
    using merge_field_step [OF assms, of r k] Cons.prems(2) by auto
  have "\<forall>x\<in>set ks. dget (merged r1) x = None"
    using Cons.prems r1(3) by (metis distinct.simps(2) list.set_intros(2))
  from Cons.IH [OF _ this] Cons.prems(1) obtain r2 where
    "merge_fields b s c ks r1 = Some r2"
    "\<forall>x. mget (merged r2) x = (if x \<in> set ks then merged_value b s c x else mget (merged r1) x)"
    "field_conflicts r2 = field_conflicts r1 @
       filter (\<lambda>k. k \<in> set scalar_fields \<and> scalar_clash (mget b k) (mget s k) (mget c k)) ks"
    by auto
  with r1 show ?case by (intro exI [of _ r2]) auto
qed simp

section \<open>Properties\<close>

text \<open>
  C12. \<open>_set_merge\<close> on lists of strings is the three-way rule on their sets: an item of the base
  stays when both sides kept it, a new item comes in from either side; the result is sorted.
\<close>

theorem set_merge_is_three_way:
  "set_merge (map PStr base) (map PStr server) (map PStr client) =
     Some (map PStr (sorted_list_of_set (three_way (set base) (set server) (set client))))"
proof -
  obtain ys where ys: "set_merge (map PStr base) (map PStr server) (map PStr client) = Some (map PStr ys)"
    "sorted ys" "distinct ys" "set ys = three_way (set base) (set server) (set client)"
    by (rule set_merge_PStr)
  then have "sorted_list_of_set (three_way (set base) (set server) (set client)) = ys"
    by (metis sorted_list_of_set.idem_if_sorted_distinct)
  with ys(1) show ?thesis by simp
qed

text \<open>
  C11. \<open>_ordered_set_merge\<close> keeps the same items without duplicates, and a list that only one side
  changed is taken over from that side in its order.
\<close>

theorem ordered_set_merge_items:
  "\<exists>ys. ordered_set_merge (map PStr base) (map PStr server) (map PStr client) = Some (map PStr ys) \<and>
     distinct ys \<and> set ys = three_way (set base) (set server) (set client) \<and>
     (server = base \<longrightarrow> distinct client \<longrightarrow> ys = client) \<and>
     (client = base \<longrightarrow> distinct server \<longrightarrow> ys = server)"
proof -
  obtain ms where ms: "set_merge (map PStr base) (map PStr server) (map PStr client) = Some (map PStr ms)"
    "set ms = three_way (set base) (set server) (set client)"
    by (rule set_merge_PStr)
  define order where "order =
    (if server = base \<and> client \<noteq> base then client @ server @ base
     else if client = base \<and> server \<noteq> base then server @ client @ base
     else if client = server then client @ server @ base else base @ server @ client)"
  obtain ys where ys: "take_ordered (map PStr ms) [] (map PStr order) = map PStr ys"
    "distinct ys" "set ys = set order \<inter> set ms"
    using take_ordered_PStr [of ms "[]" order] by auto
  have "set ms \<subseteq> set order" by (auto simp: ms(2) order_def three_way_def)
  then have mem: "set ys = three_way (set base) (set server) (set client)"
    using ys(3) ms(2) by blast
  have res: "ordered_set_merge (map PStr base) (map PStr server) (map PStr client) = Some (map PStr ys)"
  proof (cases "ms = []")
    case True
    then have "ys = []" using ys(3) by simp
    with True ms(1) show ?thesis by (simp add: ordered_set_merge_def)
  next
    case False
    then show ?thesis
      using ms(1) ys(1) by (simp add: ordered_set_merge_def order_def if_distrib [of "map PStr"] cong: if_cong)
  qed
  have client: "ys = client" if "server = base" "distinct client"
  proof -
    have "\<exists>ws. map PStr order = map PStr client @ map PStr ws"
      using that by (cases "client = base") (auto simp: order_def map_append [symmetric] simp del: map_append)
    then show ?thesis
      using take_ordered_head [of client ms] that ms(2) ys(1)
      by (metis map_injective pyval.inject(4) inj_onI list.inj_map_strong three_way_unchanged(1))
  qed
  have server: "ys = server" if "client = base" "distinct server"
  proof (cases "server = base")
    case True
    with client that show ?thesis by simp
  next
    case False
    then have "map PStr order = map PStr server @ map PStr (client @ base)"
      using that by (simp add: order_def)
    then show ?thesis
      using take_ordered_head [of server ms] that ms(2) ys(1)
      by (metis list.inj_map_strong pyval.inject(4) three_way_unchanged(2))
  qed
  show ?thesis using res ys(2) mem client server by blast
qed

theorem ordered_set_merge_items_witness:
  "ordered_set_merge (map PStr [''b'', ''a'']) (map PStr [''b'', ''a'']) (map PStr [''c'', ''b'']) =
     Some (map PStr [''c'', ''b''])"
proof -
  obtain ys where "ordered_set_merge (map PStr [''b'', ''a'']) (map PStr [''b'', ''a'']) (map PStr [''c'', ''b'']) =
      Some (map PStr ys)" "distinct [''c'', ''b''] \<longrightarrow> ys = [''c'', ''b'']"
    using ordered_set_merge_items [of "[''b'', ''a'']" "[''b'', ''a'']" "[''c'', ''b'']"] by blast
  then show ?thesis by simp
qed

text \<open>
  C5. The front matter merge, in whatever order Python visits the keys, gives every field the value
  of the three-way rule: a scalar one side left alone takes the other side's value, the server wins
  where both changed it differently, labels are merged as sets, and \<open>modified_at\<close> is left out. The
  reported conflicts are the title, author, creation time and draft flag where the server won.
\<close>

theorem frontmatter_merge_is_three_way:
  assumes "set order = all_keys base server client" and "distinct order"
    and "str_label_fields base server client"
  shows "\<exists>r. merge_frontmatter order (Some base) server client = Some r \<and>
    (\<forall>k. mget (merged r) k =
       (if k = ''modified_at'' \<or> k = ''labels'' \<and> ''labels'' \<notin> set order then PNone
        else merged_value base server client k)) \<and>
    set (field_conflicts r) =
      {k \<in> set scalar_fields. scalar_clash (mget base k) (mget server k) (mget client k)}"
proof -
  obtain r where r: "merge_fields base server client order \<lparr>merged = [], field_conflicts = []\<rparr> = Some r"
    "\<forall>k. mget (merged r) k = (if k \<in> set order then merged_value base server client k else PNone)"
    "field_conflicts r =
       filter (\<lambda>k. k \<in> set scalar_fields \<and> scalar_clash (mget base k) (mget server k) (mget client k)) order"
    using merge_fields_spec [OF assms(3,2), of "\<lparr>merged = [], field_conflicts = []\<rparr>"]
    by (auto simp: mget_def)
  have absent: "mget base k = PNone \<and> mget server k = PNone \<and> mget client k = PNone"
    if "k \<notin> set order" "k \<noteq> ''modified_at''" for k
    using that assms(1) by (auto simp: all_keys_def mget_def map_of_eq_None_iff [symmetric])
  have "mget (merged r) k = (if k = ''modified_at'' \<or> k = ''labels'' \<and> ''labels'' \<notin> set order then PNone
        else merged_value base server client k)" for k
    using r(2) absent [of k] assms(1) by (auto simp: all_keys_def merged_value_def scalar_merge_def)
  moreover have "set (field_conflicts r) =
      {k \<in> set scalar_fields. scalar_clash (mget base k) (mget server k) (mget client k)}"
  proof -
    have "k \<in> set order" if "k \<in> set scalar_fields" "scalar_clash (mget base k) (mget server k) (mget client k)" for k
    proof (rule ccontr)
      assume "k \<notin> set order"
      moreover have "k \<noteq> ''modified_at''" using that(1) by (auto simp: scalar_fields_def)
      ultimately show False using absent [of k] that(2) by (simp add: scalar_clash_def)
    qed
    then show ?thesis using r(3) by auto
  qed
  ultimately show ?thesis using r(1) by (auto simp: merge_frontmatter_def)
qed

theorem frontmatter_merge_is_three_way_witness:
  "\<exists>r. merge_frontmatter [''title'', ''labels''] (Some [(''title'', PStr ''a'')])
      [(''title'', PStr ''b''), (''labels'', PList [PStr ''#x''])] [(''title'', PStr ''c'')] = Some r \<and>
    mget (merged r) ''title'' = PStr ''b'' \<and> set (field_conflicts r) = {''title''}"
proof -
  let ?b = "[(''title'', PStr ''a'')]"
    and ?s = "[(''title'', PStr ''b''), (''labels'', PList [PStr ''#x''])]"
    and ?c = "[(''title'', PStr ''c'')]"
  have "set [''title'', ''labels''] = all_keys ?b ?s ?c" by (auto simp: all_keys_def)
  moreover have "distinct [''title'', ''labels'']" by simp
  moreover have "str_label_fields ?b ?s ?c" by (simp add: str_label_fields_def str_labels_def mget_def)
  ultimately obtain r where r: "merge_frontmatter [''title'', ''labels''] (Some ?b) ?s ?c = Some r"
    "\<forall>k. mget (merged r) k =
       (if k = ''modified_at'' \<or> k = ''labels'' \<and> ''labels'' \<notin> set [''title'', ''labels''] then PNone
        else merged_value ?b ?s ?c k)"
    "set (field_conflicts r) = {k \<in> set scalar_fields. scalar_clash (mget ?b k) (mget ?s k) (mget ?c k)}"
    using frontmatter_merge_is_three_way [of "[''title'', ''labels'']" ?b ?s ?c] by blast
  then show ?thesis
    by (auto simp: merged_value_def scalar_merge_def scalar_clash_def scalar_fields_def mget_def)
qed

text \<open>
  C13. A post whose front matter parses and whose body changed on one side at most merges without
  a body conflict and without git: the body is the changed one, the front matter is the merge of
  the front matters.
\<close>

theorem one_sided_body_merges_clean:
  assumes "fm_loads X server = Some (server_meta, server_body)"
    and "fm_loads X client = Some (client_meta, client_body)"
    and "fm_loads X base = Some (base_meta, base_body)"
    and "merge_frontmatter order (Some base_meta) server_meta client_meta = Some r"
    and "server_body = base_body \<or> client_body = base_body \<or> server_body = client_body"
    and "fm_dumps X (merged r) (if server_body = base_body then client_body else server_body) = Dumped out"
  shows "merge_post_file X order (Some base) server client =
    Some \<lparr>merged_content = out @ [CHR 0x0A], body_conflicted = False,
      post_field_conflicts = field_conflicts r\<rparr>"
proof -
  have "merge_bodies X base_body server_body client_body =
      (if server_body = base_body then client_body else server_body, False)"
    using assms(5) by (auto simp: merge_bodies_def)
  with assms show ?thesis by (simp add: merge_post_file_def)
qed

definition plain_externals :: externals where
  "plain_externals = \<lparr>fm_loads = (\<lambda>s. Some ([(''title'', PStr ''t'')], s)),
     fm_dumps = (\<lambda>m b. Dumped b), toml_labels = (\<lambda>s. Some (PDict [])),
     toml_dump_labels = (\<lambda>v. Some []), git_merge_file = (\<lambda>b s c. RunTimeout),
     pendulum_parse = (\<lambda>s tz. PendError), pendulum_offset = (\<lambda>tz t. 0),
     str_title = (\<lambda>s. s), py_str = (\<lambda>v. [])\<rparr>"

theorem one_sided_body_merges_clean_witness:
  "merge_post_file plain_externals [''title''] (Some ''old'') ''old'' ''new'' =
    Some \<lparr>merged_content = ''new'' @ [CHR 0x0A], body_conflicted = False, post_field_conflicts = []\<rparr>"
proof -
  let ?m = "[(''title'', PStr ''t'')]"
  have m: "merge_frontmatter [''title''] (Some ?m) ?m ?m = Some \<lparr>merged = ?m, field_conflicts = []\<rparr>"
    by (simp add: merge_frontmatter_def merge_field_def mget_def set_unless_none_def)
  show ?thesis
    using one_sided_body_merges_clean [of plain_externals "''old''" ?m "''old''" "''new''" ?m "''new''"
        "''old''" ?m "''old''", OF _ _ _ m]
    by (simp add: plain_externals_def)
qed

end
