(* ===== verification/FrontMatter.thy ===== *)
theory FrontMatter
  imports PyData
begin

text \<open>
  Posts as text: \<^verbatim>\<open>backend/filesystem/frontmatter.py\<close> (titles, leading headings, labels, parsing,
  serialising and excerpts) with the date helpers of \<^verbatim>\<open>backend/utils/datetime.py\<close>. A date value is
  the number of days since 1970-01-01. \<open>None\<close> stands for a raised \<open>ValueError\<close> or \<open>YAMLError\<close>.
\<close>

definition recognized_fields :: "str list" where
  "recognized_fields = [''title'', ''subtitle'', ''created_at'', ''modified_at'', ''author'', ''labels'', ''draft'']"

record post_data =
  title :: str
  content :: str
  raw_content :: str
  created_at :: pyval
  modified_at :: pyval
  subtitle :: "str option"
  author :: "str option"
  labels :: "str list"
  is_draft :: bool
  post_file_path :: str

section \<open>Dates\<close>

text \<open>The calendar date of a day number (proleptic Gregorian).\<close>

definition civil_from_days :: "int \<Rightarrow> int \<times> int \<times> int" where
  "civil_from_days days =
     (let z = days + 719468; era = z div 146097; doe = z mod 146097;
          yoe = (doe - doe div 1460 + doe div 36524 - doe div 146096) div 365;
          doy = doe - (365 * yoe + yoe div 4 - yoe div 100);
          mp = (5 * doy + 2) div 153;
          d = doy - (153 * mp + 2) div 5 + 1;
          m = (if mp < 10 then mp + 3 else mp - 9)
      in (yoe + era * 400 + (if m \<le> 2 then 1 else 0), m, d))"

fun show_digits :: "nat \<Rightarrow> nat \<Rightarrow> str" where
  "show_digits 0 n = []"
| "show_digits (Suc w) n = show_digits w (n div 10) @ [char_of (48 + n mod 10)]"

definition micros_per_day :: int where
  "micros_per_day = 86400000000"

text \<open>\<open>%z\<close>: sign, hours, minutes and, when there are any, seconds.\<close>

definition format_offset :: "int \<Rightarrow> str" where
  "format_offset off =
     (let a = nat \<bar>off\<bar> div 1000000; h = a div 3600; m = a div 60 mod 60; s = a mod 60
      in (if off < 0 then ''-'' else ''+'') @ show_digits 2 h @ show_digits 2 m @
         (if s = 0 then [] else show_digits 2 s))"

text \<open>\<open>format_datetime\<close> with the format \<open>%Y-%m-%d %H:%M:%S.%f%z\<close> (years from 1000 on); a naive
  time is taken as UTC.\<close>

definition format_datetime :: "int \<Rightarrow> int option \<Rightarrow> str" where
  "format_datetime local offset =
     (let (y, m, d) = civil_from_days (local div micros_per_day);
          t = nat (local mod micros_per_day)
      in show_digits 4 (nat y) @ ''-'' @ show_digits 2 (nat m) @ ''-'' @ show_digits 2 (nat d) @ '' '' @
         show_digits 2 (t div 3600000000) @ '':'' @ show_digits 2 (t div 60000000 mod 60) @ '':'' @
         show_digits 2 (t div 1000000 mod 60) @ ''.'' @ show_digits 6 (t mod 1000000) @
         format_offset (case offset of None \<Rightarrow> 0 | Some z \<Rightarrow> z))"

definition parse_datetime_str :: "externals \<Rightarrow> str \<Rightarrow> str \<Rightarrow> pyval option" where
  "parse_datetime_str X s fallback_tz =
     (case pendulum_parse X (strip s) fallback_tz of
        PendDateTime t z \<Rightarrow> Some (PDateTime t (Some z))
      | PendDate d \<Rightarrow>
          (let t = d * micros_per_day in Some (PDateTime t (Some (pendulum_offset X fallback_tz t))))
      | _ \<Rightarrow> None)"

definition parse_datetime :: "externals \<Rightarrow> int \<Rightarrow> int option \<Rightarrow> str \<Rightarrow> pyval" where
  "parse_datetime X t z fallback_tz =
     (case z of None \<Rightarrow> PDateTime t (Some (pendulum_offset X fallback_tz t))
      | Some _ \<Rightarrow> PDateTime t z)"

section \<open>Titles and headings\<close>

text \<open>The text of a level-one heading line.\<close>

definition heading_text :: "str \<Rightarrow> str option" where
  "heading_text line =
     (let stripped = strip line in
      if startswith stripped ''# '' \<and> \<not> startswith stripped ''## ''
      then Some (strip (removeprefix stripped ''# '')) else None)"

fun first_heading :: "str list \<Rightarrow> str option" where
  "first_heading [] = None"
| "first_heading (l # ls) = (case heading_text l of Some t \<Rightarrow> Some t | None \<Rightarrow> first_heading ls)"

definition is_digit :: "char \<Rightarrow> bool" where
  "is_digit c \<longleftrightarrow> 48 \<le> (of_char c :: nat) \<and> (of_char c :: nat) \<le> 57"

text \<open>\<open>re.sub(r"^\d{4}-\d{2}-\d{2}-?", "", name)\<close>.\<close>

definition strip_date_prefix :: "str \<Rightarrow> str" where
  "strip_date_prefix name =
     (if length name \<ge> 10 \<and> list_all is_digit (take 4 name) \<and> name ! 4 = CHR ''-'' \<and>
         list_all is_digit (take 2 (drop 5 name)) \<and> name ! 7 = CHR ''-'' \<and>
         list_all is_digit (take 2 (drop 8 name))
      then (if startswith (drop 10 name) ''-'' then drop 11 name else drop 10 name)
      else name)"

definition dash_to_space :: "str \<Rightarrow> str" where
  "dash_to_space s = map (\<lambda>c. if c = CHR ''-'' \<or> c = CHR ''_'' then CHR '' '' else c) s"

definition extract_title :: "externals \<Rightarrow> str \<Rightarrow> str \<Rightarrow> str" where
  "extract_title X body path =
     (case first_heading (split_on (CHR 0x0A) (strip body)) of
        Some t \<Rightarrow> t
      | None \<Rightarrow>
          if path = [] then ''Untitled''
          else
            let name0 = last (split_on (CHR ''/'') path);
                parts = split_on (CHR ''/'') (rstrip_char (CHR ''/'') path);
                name1 = (if name0 = ''index.md'' \<and> CHR ''/'' \<in> set path
                         then parts ! (length parts - 2) else name0);
                name2 = removesuffix (strip_date_prefix name1) ''.md'';
                t = strip (str_title X (dash_to_space name2))
            in if t \<noteq> [] then t else ''Untitled'')"

fun strip_heading_lines :: "str \<Rightarrow> str list \<Rightarrow> str list option" where
  "strip_heading_lines t [] = None"
| "strip_heading_lines t (l # ls) =
     (if strip l = [] then strip_heading_lines t ls
      else if heading_text l = Some t then Some ls else None)"

definition strip_leading_heading :: "str \<Rightarrow> str \<Rightarrow> str" where
  "strip_leading_heading body t =
     (case strip_heading_lines t (split_on (CHR 0x0A) body) of
        Some rest \<Rightarrow> join_with [CHR 0x0A] rest
      | None \<Rightarrow> body)"

section \<open>Parsing and serialising\<close>

text \<open>\<open>str(v)\<close>.\<close>

definition to_str :: "externals \<Rightarrow> pyval \<Rightarrow> str" where
  "to_str X v = (case v of PStr s \<Rightarrow> s | _ \<Rightarrow> py_str X v)"

definition or_none :: "str \<Rightarrow> str option" where
  "or_none s = (if s = [] then None else Some s)"

definition parse_optional_str :: "externals \<Rightarrow> meta \<Rightarrow> str \<Rightarrow> str option" where
  "parse_optional_str X m key =
     (case mget m key of PNone \<Rightarrow> None | v \<Rightarrow> or_none (strip (to_str X v)))"

definition parse_labels :: "externals \<Rightarrow> pyval \<Rightarrow> str list" where
  "parse_labels X raw_labels = (case raw_labels of
     PList xs \<Rightarrow> map (\<lambda>l. removeprefix (strip (to_str X l)) ''#'') xs
   | _ \<Rightarrow> [])"

definition parse_time_field :: "externals \<Rightarrow> str \<Rightarrow> pyval \<Rightarrow> pyval option" where
  "parse_time_field X fallback_tz raw = (case raw of
     PDate d \<Rightarrow> Some (parse_datetime X (d * micros_per_day) None fallback_tz)
   | PDateTime t z \<Rightarrow> Some (parse_datetime X t z fallback_tz)
   | v \<Rightarrow> parse_datetime_str X (to_str X v) fallback_tz)"

definition parse_post :: "externals \<Rightarrow> pyval \<Rightarrow> str \<Rightarrow> str \<Rightarrow> str \<Rightarrow> post_data option" where
  "parse_post X now raw path fallback_tz =
     Option.bind (fm_loads X raw) (\<lambda>(m, body).
     Option.bind (if mget m ''created_at'' = PNone then Some now
                  else parse_time_field X fallback_tz (mget m ''created_at'')) (\<lambda>created.
     Option.bind (if mget m ''modified_at'' = PNone then Some created
                  else parse_time_field X fallback_tz (mget m ''modified_at'')) (\<lambda>modified.
       let fm_title = (if mget m ''title'' = PNone then [] else to_str X (mget m ''title''));
           t = (if strip fm_title \<noteq> [] then strip fm_title else extract_title X body path)
       in Some \<lparr>title = t, content = strip_leading_heading body t, raw_content = raw,
            created_at = created, modified_at = modified,
            subtitle = parse_optional_str X m ''subtitle'', author = parse_optional_str X m ''author'',
            labels = parse_labels X (mget m ''labels''), is_draft = truthy (mget m ''draft''),
            post_file_path = path\<rparr>)))"

definition format_value :: "pyval \<Rightarrow> str" where
  "format_value v = (case v of PDateTime t z \<Rightarrow> format_datetime t z | _ \<Rightarrow> [])"

definition post_metadata :: "post_data \<Rightarrow> meta" where
  "post_metadata p =
     [(''title'', PStr (title p)), (''created_at'', PStr (format_value (created_at p))),
      (''modified_at'', PStr (format_value (modified_at p)))] @
     (case subtitle p of Some s \<Rightarrow> if s \<noteq> [] then [(''subtitle'', PStr s)] else [] | None \<Rightarrow> []) @
     (case author p of Some s \<Rightarrow> if s \<noteq> [] then [(''author'', PStr s)] else [] | None \<Rightarrow> []) @
     (if labels p \<noteq> [] then [(''labels'', PList (map (\<lambda>l. PStr (CHR ''#'' # l)) (labels p)))] else []) @
     (if is_draft p then [(''draft'', PBool True)] else [])"

definition serialize_post :: "externals \<Rightarrow> post_data \<Rightarrow> str option" where
  "serialize_post X p =
     (case fm_dumps X (post_metadata p) (strip_leading_heading (content p) (title p)) of
        Dumped s \<Rightarrow> Some (s @ [CHR 0x0A]) | _ \<Rightarrow> None)"

section \<open>Excerpts\<close>

fun excerpt_lines :: "bool \<Rightarrow> bool \<Rightarrow> str list \<Rightarrow> str list" where
  "excerpt_lines in_code in_math [] = []"
| "excerpt_lines in_code in_math (line # rest) =
     (let trimmed = strip line in
      if startswith trimmed ''```'' then excerpt_lines (\<not> in_code) in_math rest
      else if in_code then excerpt_lines in_code in_math rest
      else if trimmed = ''$$'' then excerpt_lines in_code (\<not> in_math) rest
      else if in_math then excerpt_lines in_code in_math rest
      else if startswith trimmed ''#'' then excerpt_lines in_code in_math rest
      else if startswith trimmed ''!['' then excerpt_lines in_code in_math rest
      else if startswith trimmed ''|'' then excerpt_lines in_code in_math rest
      else if startswith trimmed '':::'' then excerpt_lines in_code in_math rest
      else if startswith trimmed ''<'' \<and> CHR ''>'' \<in> set trimmed then excerpt_lines in_code in_math rest
      else if trimmed \<noteq> [] then trimmed # excerpt_lines in_code in_math rest
      else excerpt_lines in_code in_math rest)"

text \<open>\<open>s.rsplit(" ", maxsplit=1)[0]\<close>: the part before the last space, all of it if there is none.\<close>

definition before_last_space :: "str \<Rightarrow> str" where
  "before_last_space s =
     (if CHR '' '' \<in> set s then rev (tl (dropWhile (\<lambda>c. c \<noteq> CHR '' '') (rev s))) else s)"

definition generate_markdown_excerpt :: "str \<Rightarrow> nat \<Rightarrow> str" where
  "generate_markdown_excerpt body max_length =
     (let text = join_with '' '' (excerpt_lines False False (split_on (CHR 0x0A) body)) in
      if length (code_points text) > max_length
      then before_last_space (concat (take max_length (code_points text))) @ ''...''
      else text)"

end
