(* ===== verification/SyncNormalize.thy ===== *)
theory SyncNormalize
  imports ContentFs SyncPlan SyncMerge FrontMatter
begin

text \<open>
  \<open>normalize_post_frontmatter\<close> of \<^verbatim>\<open>backend/services/sync_service.py\<close>: the posts a sync uploaded
  get the missing time stamps and title, and the existing time stamps get the strict format. A
  file whose text does not decode or parse is skipped with a warning. Reading a file and dumping
  front matter may raise; the exception carries the files as they are then (\<open>Inl\<close>).
\<close>

section \<open>One post\<close>

text \<open>One round of the loop over \<open>created_at\<close> and \<open>modified_at\<close>.\<close>

definition normalize_timestamp ::
  "externals \<Rightarrow> str \<Rightarrow> str \<Rightarrow> meta \<times> str list \<Rightarrow> meta \<times> str list" where
  "normalize_timestamp X post_path ts_field = (\<lambda>(m, warnings).
     let invalid = (dpop ts_field m,
           warnings @ [post_path @ '': invalid '' @ ts_field @ '' value; replaced with current time'']) in
     case mget m ts_field of
       PNone \<Rightarrow> (m, warnings)
     | PDate n \<Rightarrow> (dset ts_field (PStr (format_datetime (n * micros_per_day) (Some 0))) m, warnings)
     | PDateTime t z \<Rightarrow> (dset ts_field (PStr (format_datetime t z)) m, warnings)
     | v \<Rightarrow> (case parse_datetime_str X (to_str X v) ''UTC'' of
              Some w \<Rightarrow> (dset ts_field (PStr (format_value w)) m, warnings)
            | None \<Rightarrow> invalid))"

definition fill_timestamps :: "str \<Rightarrow> bool \<Rightarrow> meta \<Rightarrow> meta" where
  "fill_timestamps current_time is_edit m =
     (if is_edit then
        (let m1 = dset ''modified_at'' (PStr current_time) m in
         if \<not> has_key m1 ''created_at'' then dset ''created_at'' (PStr current_time) m1 else m1)
      else
        (let m1 = (if \<not> has_key m ''created_at'' then dset ''created_at'' (PStr current_time) m else m) in
         if \<not> has_key m1 ''modified_at'' then dset ''modified_at'' (mget m1 ''created_at'') m1 else m1))"

text \<open>\<open>not raw_title or not isinstance(raw_title, str) or not raw_title.strip()\<close>.\<close>

definition blank_title :: "pyval \<Rightarrow> bool" where
  "blank_title v = (case v of PStr s \<Rightarrow> strip s = [] | _ \<Rightarrow> True)"

definition backfill_title :: "externals \<Rightarrow> str \<Rightarrow> meta \<times> str \<Rightarrow> meta \<times> str" where
  "backfill_title X post_path = (\<lambda>(m, body).
     if blank_title (mget m ''title'') then
       (let t = extract_title X body post_path
        in (dset ''title'' (PStr t) m, strip_leading_heading body t))
     else (m, body))"

definition unrecognized_fields :: "str \<Rightarrow> meta \<Rightarrow> str list" where
  "unrecognized_fields post_path m =
     map (\<lambda>key. post_path @ '': unrecognized front matter field '' @ [CHR 0x27] @ key @ [CHR 0x27])
       (filter (\<lambda>key. key \<notin> set recognized_fields) (dkeys m))"

text \<open>The changes to one parsed post, with the warnings about unrecognised fields.\<close>

definition normalize_post ::
  "externals \<Rightarrow> str \<Rightarrow> bool \<Rightarrow> str \<Rightarrow> meta \<times> str \<Rightarrow> (meta \<times> str) \<times> str list" where
  "normalize_post X current_time is_edit post_path = (\<lambda>(m, body).
     let (m1, warnings) = fold (normalize_timestamp X post_path) [''created_at'', ''modified_at'']
           (m, unrecognized_fields post_path m)
     in (backfill_title X post_path (fill_timestamps current_time is_edit m1, body), warnings))"

section \<open>The loop\<close>

record norm_state =
  norm_fs :: fs
  norm_warnings :: "str list"
  modified_files :: "str list"

definition norm_warn :: "str \<Rightarrow> norm_state \<Rightarrow> norm_state" where
  "norm_warn w s = s\<lparr>norm_warnings := norm_warnings s @ [w]\<rparr>"

text \<open>The part of one round that follows a successful read.\<close>

definition rewrite_post ::
  "externals \<Rightarrow> io_faults \<Rightarrow> str \<Rightarrow> bool \<Rightarrow> str \<Rightarrow> path \<Rightarrow> str \<Rightarrow> norm_state \<Rightarrow> norm_state option" where
  "rewrite_post X io current_time is_edit post_path full_path raw s =
     (case fm_loads X raw of
        None \<Rightarrow> Some (norm_warn (post_path @ '': skipped normalization due to parse error'') s)
      | Some post \<Rightarrow>
          (let ((m, body), warnings) = normalize_post X current_time is_edit post_path post;
               s1 = s\<lparr>norm_warnings := norm_warnings s @ warnings\<rparr> in
           case fm_dumps X m body of
             Dumped text \<Rightarrow>
               (let normalized = text @ [CHR 0x0A] in
                if normalized = raw then Some s1
                else (case write_file io NormWrite (norm_fs s1) full_path normalized of
                  None \<Rightarrow> Some (norm_warn (post_path @ '': failed to write normalized front matter'') s1)
                | Some F' \<Rightarrow> Some (s1\<lparr>norm_fs := F', modified_files := modified_files s1 @ [post_path]\<rparr>)))
           | _ \<Rightarrow> None))"

text \<open>One round; \<open>None\<close> when an exception escapes, and then no file has changed in this round.\<close>

definition normalize_file ::
  "externals \<Rightarrow> io_faults \<Rightarrow> path \<Rightarrow> str \<Rightarrow> manifest \<Rightarrow> str list \<Rightarrow> str \<Rightarrow> norm_state \<Rightarrow> norm_state option" where
  "normalize_file X io content_dir current_time old_manifest force_edit_paths post_path s =
     (if \<not> is_directory_post_path post_path then Some s
      else
        let full_path = resolve_path (join_path content_dir post_path) in
        if \<not> prefix (resolve_path content_dir) full_path then
          Some (norm_warn (post_path @ '': skipped normalization due to invalid path'') s)
        else (case read_file (norm_fs s) full_path of
          None \<Rightarrow> Some s
        | Some b \<Rightarrow>
            if io ReadText full_path then None
            else (case decode_utf8 b of
              None \<Rightarrow> Some (norm_warn (post_path @ '': skipped normalization due to parse error'') s)
            | Some t \<Rightarrow>
                rewrite_post X io current_time
                  (has_key old_manifest post_path \<or> post_path \<in> set force_edit_paths)
                  post_path full_path (universal_newlines t) s)))"

fun normalize_files ::
  "externals \<Rightarrow> io_faults \<Rightarrow> path \<Rightarrow> str \<Rightarrow> manifest \<Rightarrow> str list \<Rightarrow> str list \<Rightarrow> norm_state
   \<Rightarrow> fs + norm_state" where
  "normalize_files X io d now old force [] s = Inr s"
| "normalize_files X io d now old force (p # ps) s =
     (case normalize_file X io d now old force p s of
        None \<Rightarrow> Inl (norm_fs s)
      | Some s' \<Rightarrow> normalize_files X io d now old force ps s')"

definition normalize_post_frontmatter ::
  "externals \<Rightarrow> io_faults \<Rightarrow> str \<Rightarrow> str list \<Rightarrow> manifest \<Rightarrow> path \<Rightarrow> str list \<Rightarrow> fs \<Rightarrow> fs + norm_state" where
  "normalize_post_frontmatter X io current_time uploaded_files old_manifest content_dir force_edit_paths F =
     normalize_files X io content_dir current_time old_manifest force_edit_paths uploaded_files
       \<lparr>norm_fs = F, norm_warnings = [], modified_files = []\<rparr>"

section \<open>Facts about one post\<close>

lemma heading_text_nonblank:
  assumes "heading_text line = Some t"
  shows "strip t \<noteq> []"
proof
  assume blank: "strip t = []"
  from assms obtain r where r: "strip line = ''# '' @ r" "t = strip r"
    by (auto simp: heading_text_def Let_def removeprefix_def prefix_def split: if_splits)
  with blank have "lstrip r = []" by (simp add: strip_empty_lstrip [symmetric])
  moreover have "lstrip (CHR '' '' # r) = lstrip r"
    using lstrip.simps [of "CHR '' '' # r"] by (simp add: ws_len_def)
  ultimately have "rstrip (''# '' @ r) = ''#''"
    by (simp add: lstrip_plain plain_def)
  moreover have "rstrip (''# '' @ r) = ''# '' @ r"
    using r(1) by (metis rstrip_rstrip strip_def)
  ultimately show False by simp
qed

lemma first_heading_nonblank: "first_heading ls = Some t \<Longrightarrow> strip t \<noteq> []"
  by (induction ls) (auto simp: heading_text_nonblank split: option.splits)

lemma extract_title_nonblank: "strip (extract_title X body p) \<noteq> []"
proof (cases "first_heading (split_on (CHR 0x0A) (strip body))")
  case None
  have "strip ''Untitled'' \<noteq> []" by code_simp
  with None show ?thesis by (auto simp: extract_title_def Let_def)
next
  case (Some t)
  then show ?thesis using first_heading_nonblank by (simp add: extract_title_def)
qed

lemma normalize_timestamp_key:
  assumes "normalize_timestamp X p f (m, ws) = (m', ws')"
  shows "k \<noteq> f \<Longrightarrow> dget m' k = dget m k"
    and "dget m' f = Some PNone \<longleftrightarrow> dget m f = Some PNone"
    and "dget m' f \<noteq> None \<Longrightarrow> mget m' f = PNone \<or> (\<exists>s. mget m' f = PStr s)"
    and "dget m f = None \<Longrightarrow> dget m' f = None"
  using assms
  by (auto simp: normalize_timestamp_def mget_def Let_def split: pyval.splits option.splits)

section \<open>Facts about the loop\<close>

lemma rewrite_post_frame:
  assumes "rewrite_post X io now e p fp raw s = Some s'"
  shows "modified_files s' = modified_files s \<and> norm_fs s' = norm_fs s \<or>
    modified_files s' = modified_files s @ [p] \<and>
    (\<exists>b. write_file io NormWrite (norm_fs s) fp b = Some (norm_fs s'))"
  using assms
  by (auto simp: rewrite_post_def norm_warn_def Let_def split: option.splits prod.splits dump_result.splits if_splits)

lemma normalize_file_frame:
  assumes "normalize_file X io d now old force p s = Some s'"
  shows "modified_files s' = modified_files s \<and> norm_fs s' = norm_fs s \<or>
    modified_files s' = modified_files s @ [p] \<and> is_directory_post_path p \<and>
    (\<exists>b. write_file io NormWrite (norm_fs s) (resolve_path (join_path d p)) b = Some (norm_fs s'))"
  using assms
  by (auto simp: normalize_file_def norm_warn_def Let_def split: option.splits if_splits
      dest!: rewrite_post_frame)

lemma normalize_files_frame:
  "normalize_files X io d now old force ps s = Inr s' \<Longrightarrow>
   \<exists>ms. modified_files s' = modified_files s @ ms \<and> set ms \<subseteq> {p \<in> set ps. is_directory_post_path p} \<and>
     (\<forall>q. q \<notin> (\<lambda>p. resolve_path (join_path d p)) ` set ms \<longrightarrow> read_file (norm_fs s') q = read_file (norm_fs s) q)"
proof (induction ps arbitrary: s)
  case (Cons p ps)
  then obtain s1 where s1: "normalize_file X io d now old force p s = Some s1"
    "normalize_files X io d now old force ps s1 = Inr s'"
    by (auto split: option.splits)
  from Cons.IH [OF s1(2)] obtain ms where ms: "modified_files s' = modified_files s1 @ ms"
    "set ms \<subseteq> {p \<in> set ps. is_directory_post_path p}"
    "\<forall>q. q \<notin> (\<lambda>p. resolve_path (join_path d p)) ` set ms \<longrightarrow> read_file (norm_fs s') q = read_file (norm_fs s1) q"
    by blast
  from normalize_file_frame [OF s1(1)] show ?case
  proof
    assume "modified_files s1 = modified_files s \<and> norm_fs s1 = norm_fs s"
    with ms show ?thesis by (intro exI [of _ ms]) auto
  next
    assume "modified_files s1 = modified_files s @ [p] \<and> is_directory_post_path p \<and>
      (\<exists>b. write_file io NormWrite (norm_fs s) (resolve_path (join_path d p)) b = Some (norm_fs s1))"
    with ms show ?thesis
      by (intro exI [of _ "p # ms"]) (auto simp: fs_store.put_changes_only)
  qed
qed auto

text \<open>Files outside the canonical posts that were uploaded stay as they are, exception or not.\<close>

definition norm_targets :: "path \<Rightarrow> str list \<Rightarrow> path set" where
  "norm_targets d ps = (\<lambda>p. resolve_path (join_path d p)) ` {p \<in> set ps. is_directory_post_path p}"

lemma normalize_files_targets:
  "q \<notin> norm_targets d ps \<Longrightarrow>
   read_file (case normalize_files X io d now old force ps s of Inl F \<Rightarrow> F | Inr s' \<Rightarrow> norm_fs s') q =
   read_file (norm_fs s) q"
proof (induction ps arbitrary: s)
  case (Cons p ps)
  show ?case
  proof (cases "normalize_file X io d now old force p s")
    case (Some s1)
    have "q \<noteq> resolve_path (join_path d p)" if "is_directory_post_path p"
      using Cons.prems that by (auto simp: norm_targets_def)
    then have "read_file (norm_fs s1) q = read_file (norm_fs s) q"
      using normalize_file_frame [OF Some] by (auto simp: fs_store.put_changes_only)
    moreover have "q \<notin> norm_targets d ps"
      using Cons.prems by (auto simp: norm_targets_def)
    ultimately show ?thesis using Cons.IH [of s1] Some by simp
  qed simp
qed simp

section \<open>Properties\<close>

text \<open>
  C14. A normalised post is complete: it has both time stamps and a title that is not blank, an
  edited post has the current time as \<open>modified_at\<close>, a time stamp without a value stays one when it
  was written as null, and a field other than title and time stamps is left alone, as is the body
  of a post that had a title.
\<close>

theorem normalize_post_complete:
  assumes "normalize_post X now is_edit p (m, body) = ((m', body'), ws)"
  shows "has_key m' ''created_at'' \<and> has_key m' ''modified_at'' \<and> \<not> blank_title (mget m' ''title'') \<and>
    (is_edit \<longrightarrow> mget m' ''modified_at'' = PStr now) \<and>
    (mget m' ''created_at'' = PNone \<longleftrightarrow> dget m ''created_at'' = Some PNone) \<and>
    (\<forall>k. k \<notin> {''title'', ''created_at'', ''modified_at''} \<longrightarrow> dget m' k = dget m k) \<and>
    (\<not> blank_title (mget m ''title'') \<longrightarrow> body' = body \<and> mget m' ''title'' = mget m ''title'')"
proof -
  obtain m1 w1 where one: "normalize_timestamp X p ''created_at'' (m, unrecognized_fields p m) = (m1, w1)"
    by (metis surj_pair)
  obtain m2 w2 where two: "normalize_timestamp X p ''modified_at'' (m1, w1) = (m2, w2)"
    by (metis surj_pair)
  have res: "backfill_title X p (fill_timestamps now is_edit m2, body) = (m', body')"
    using assms one two by (simp add: normalize_post_def)
  let ?f = "fill_timestamps now is_edit m2"
  have same: "dget m2 k = dget m k" if "k \<noteq> ''created_at''" "k \<noteq> ''modified_at''" for k
    using normalize_timestamp_key(1) [OF one that(1)] normalize_timestamp_key(1) [OF two that(2)] by simp
  have created: "dget m2 ''created_at'' = dget m1 ''created_at''"
    by (rule normalize_timestamp_key(1) [OF two]) simp
  have f: "dget ?f k = dget m k" if "k \<noteq> ''created_at''" "k \<noteq> ''modified_at''" for k
    using that same by (auto simp: fill_timestamps_def Let_def)
  have keys: "has_key ?f ''created_at''" "has_key ?f ''modified_at''"
    by (auto simp: fill_timestamps_def Let_def has_key_def)
  have edit: "is_edit \<longrightarrow> mget ?f ''modified_at'' = PStr now"
    by (auto simp: fill_timestamps_def Let_def mget_def)
  have null: "mget ?f ''created_at'' = PNone \<longleftrightarrow> dget m ''created_at'' = Some PNone"
    using normalize_timestamp_key(2) [OF one] created
    by (auto simp: fill_timestamps_def Let_def mget_def has_key_def split: option.splits)
  have title: "m' = (if blank_title (mget m ''title'') then dset ''title'' (PStr (extract_title X body p)) ?f else ?f)"
    "\<not> blank_title (mget m ''title'') \<Longrightarrow> body' = body"
    using res f [of "''title''"]
    by (auto simp: backfill_title_def mget_def Let_def split: if_splits)
  have blank: "\<not> blank_title (PStr (extract_title X body p))"
    by (simp add: blank_title_def extract_title_nonblank)
  have ft: "mget ?f ''title'' = mget m ''title''"
    using f [of "''title''"] by (simp add: mget_def)
  have other: "\<forall>k. k \<notin> {''title'', ''created_at'', ''modified_at''} \<longrightarrow> dget m' k = dget m k"
    unfolding title(1) using f by auto
  have m': "mget m' ''title'' = (if blank_title (mget m ''title'') then PStr (extract_title X body p)
      else mget m ''title'')" "has_key m' k = has_key ?f k" "mget m' k = mget ?f k" if "k \<noteq> ''title''" for k
    unfolding title(1) using ft that by (auto simp: mget_def has_key_def)
  note created' = m'(2,3) [of "''created_at''", simplified] and modified' = m'(2,3) [of "''modified_at''", simplified]
  show ?thesis
    using keys edit null title(2) other blank m'(1) [of "''author''"] unfolding created' modified' by simp
qed

theorem normalize_post_complete_witness:
  "\<exists>m' body' ws. normalize_post plain_externals ''now'' False ''posts/a/index.md'' ([], ''# Hi'') = ((m', body'), ws) \<and>
     has_key m' ''created_at'' \<and> \<not> blank_title (mget m' ''title'')"
proof -
  define r where "r = normalize_post plain_externals ''now'' False ''posts/a/index.md'' ([], ''# Hi'')"
  obtain m' body' ws where r': "r = ((m', body'), ws)" by (metis surj_pair)
  have "has_key m' ''created_at'' \<and> \<not> blank_title (mget m' ''title'')"
    using normalize_post_complete [OF r' [unfolded r_def]] by simp
  with r' show ?thesis unfolding r_def [symmetric] by blast
qed



end
