(* ===== verification/TreeScan.thy ===== *)
theory TreeScan
  imports ContentFs SyncPlan
begin

text \<open>
  The scan of a content tree, which the server (\<open>scan_content_files\<close>) and the client
  (\<open>scan_local_files\<close>) write alike: every file below the directory with no hidden component and a
  managed name gives an entry under its relative name. The main fact says which hash a scan records
  for a name, and the locale \<open>content_scan\<close> is what the rest of the development uses of a scan.
\<close>

definition all_files :: "fs \<Rightarrow> path list" where
  "all_files F = remdups (map fst (files F))"

lemma all_files_set: "set (all_files F) = {p. read_file F p \<noteq> None}"
  by (simp add: all_files_def read_file_def map_of_eq_None_iff)

lemma all_files_distinct [simp]: "distinct (all_files F)"
  by (simp add: all_files_def)

definition rel_name :: "path \<Rightarrow> path \<Rightarrow> str" where
  "rel_name d p = join_with ''/'' (drop (length d) p)"

text \<open>The files \<open>os.walk\<close> yields and the scan keeps.\<close>

definition scanned :: "path \<Rightarrow> path \<Rightarrow> bool" where
  "scanned d p \<longleftrightarrow> strict_prefix d p \<and> \<not> list_ex (\<lambda>part. startswith part ''.'') (drop (length d) p) \<and>
     is_sync_managed_path (rel_name d p)"

text \<open>One file; \<open>skip p\<close> where reading it fails.\<close>

definition scan_entry ::
  "(path \<Rightarrow> bool) \<Rightarrow> (bytes \<Rightarrow> str) \<Rightarrow> (path \<Rightarrow> str) \<Rightarrow> path \<Rightarrow> fs \<Rightarrow> path \<Rightarrow> manifest \<Rightarrow> manifest" where
  "scan_entry skip sha mtime d F p entries =
     (if \<not> scanned d p \<or> skip p then entries
      else (case read_file F p of
              None \<Rightarrow> entries
            | Some b \<Rightarrow> dset (rel_name d p) \<lparr>file_path = rel_name d p, content_hash = sha b,
                 file_size = length b, file_mtime = mtime p\<rparr> entries))"

definition scan_tree ::
  "(path \<Rightarrow> bool) \<Rightarrow> (bytes \<Rightarrow> str) \<Rightarrow> (path \<Rightarrow> str) \<Rightarrow> path \<Rightarrow> fs \<Rightarrow> manifest" where
  "scan_tree skip sha mtime d F = fold (scan_entry skip sha mtime d F) (all_files F) []"

section \<open>Proper trees\<close>

text \<open>A component of a real path is not empty, not a dot and has no slash.\<close>

definition proper :: "path \<Rightarrow> bool" where
  "proper p \<longleftrightarrow> list_all (\<lambda>c. c \<noteq> [] \<and> c \<noteq> ''.'' \<and> c \<noteq> ''..'' \<and> CHR ''/'' \<notin> set c) p"

text \<open>The scanned paths of a tree are real paths.\<close>

definition proper_fs :: "path \<Rightarrow> fs \<Rightarrow> bool" where
  "proper_fs d F \<longleftrightarrow> (\<forall>p. scanned d p \<and> read_file F p \<noteq> None \<longrightarrow> proper p)"

lemma split_join: "ps \<noteq> [] \<Longrightarrow> \<forall>p\<in>set ps. c \<notin> set p \<Longrightarrow> split_on c (join_with [c] ps) = ps"
proof (induction "[c]" ps rule: join_with.induct)
  case (2 x)
  then show ?case by (simp add: split_on_no_sep)
next
  case (3 x y xs)
  then have "split_on c (x @ c # join_with [c] (y # xs)) = [x] @ (y # xs)"
    by (simp only: split_on_append_sep) (simp add: split_on_no_sep)
  then show ?case by simp
qed simp

lemma proper_append [simp]: "proper (p @ q) \<longleftrightarrow> proper p \<and> proper q"
  by (simp add: proper_def)

lemma rel_name_split:
  assumes "proper p" and "strict_prefix d p"
  shows "split_on (CHR ''/'') (rel_name d p) = drop (length d) p" "clean_name (rel_name d p)"
    "join_path d (rel_name d p) = p"
proof -
  obtain r where r: "p = d @ r" "r \<noteq> []" using assms(2) by (auto simp: strict_prefix_def prefix_def)
  have "\<forall>c\<in>set r. CHR ''/'' \<notin> set c" using assms(1) r by (auto simp: proper_def list_all_iff)
  then show split: "split_on (CHR ''/'') (rel_name d p) = drop (length d) p"
    using r by (simp add: rel_name_def split_join)
  have "filter (\<lambda>c. c \<noteq> [] \<and> c \<noteq> ''.'') r = r"
    using assms(1) r by (auto simp: proper_def list_all_iff filter_id_conv)
  then show clean: "clean_name (rel_name d p)"
    using split r by (simp add: clean_name_def path_parts_def)
  show "join_path d (rel_name d p) = p"
    using join_clean [OF clean, of d] split r by simp
qed

lemma managed_parts:
  assumes "is_sync_managed_path n" and "clean_name n"
  shows "proper (split_on (CHR ''/'') n)"
    "\<not> list_ex (\<lambda>part. startswith part ''.'') (split_on (CHR ''/'') n)"
proof -
  have dots: "\<not> startswith c ''.''" if "c \<in> set (split_on (CHR ''/'') n)" for c
    using managed_no_dot_component [OF assms(1) that] .
  then show "\<not> list_ex (\<lambda>part. startswith part ''.'') (split_on (CHR ''/'') n)"
    by (simp add: list_ex_iff)
  have "set (split_on (CHR ''/'') n) = set (path_parts n)" using assms(2) by (simp add: clean_name_def)
  then have "c \<noteq> []" if "c \<in> set (split_on (CHR ''/'') n)" for c
    using that by (auto simp: path_parts_def)
  with dots split_on_parts_no_sep [of _ "CHR ''/''" n] show "proper (split_on (CHR ''/'') n)"
    by (force simp: proper_def list_all_iff)
qed

section \<open>What a scan records\<close>

text \<open>The content a tree holds under a name of the sync surface.\<close>

definition content_at :: "path \<Rightarrow> fs \<Rightarrow> str \<Rightarrow> bytes option" where
  "content_at d F n =
     (if is_sync_managed_path n \<and> clean_name n then read_file F (join_path d n) else None)"

lemma scanned_join:
  assumes "is_sync_managed_path n" and "clean_name n"
  shows "scanned d (join_path d n)" "rel_name d (join_path d n) = n"
proof -
  show rel: "rel_name d (join_path d n) = n"
    using assms(2) by (simp add: join_clean rel_name_def join_split)
  show "scanned d (join_path d n)"
    using assms rel managed_parts(2) [OF assms]
    by (simp add: scanned_def join_clean strict_prefix_def)
qed

lemma scan_fold_hash:
  assumes "proper_fs d F" and "distinct ps" and "\<And>p. skip p = False" and "proper d"
  shows "hash_of (fold (scan_entry skip sha mtime d F) ps m) n =
    (if \<exists>p\<in>set ps. scanned d p \<and> read_file F p \<noteq> None \<and> rel_name d p = n
     then map_option sha (read_file F (join_path d n)) else hash_of m n)"
  using assms(2)
proof (induction ps arbitrary: m)
  case (Cons p ps)
  show ?case
  proof (cases "scanned d p \<and> read_file F p \<noteq> None")
    case False
    then have "scan_entry skip sha mtime d F p m = m"
      by (auto simp: scan_entry_def split: option.splits)
    with Cons False show ?thesis by auto
  next
    case True
    then obtain b where b: "read_file F p = Some b" by blast
    have p: "proper p" "strict_prefix d p"
      using True assms(1) by (auto simp: proper_fs_def scanned_def)
    have join: "join_path d (rel_name d p) = p" by (rule rel_name_split(3) [OF p])
    have "hash_of (scan_entry skip sha mtime d F p m) n =
        (if n = rel_name d p then Some (sha b) else hash_of m n)"
      using True b assms(3) by (simp add: scan_entry_def hash_of_def)
    then show ?thesis
      using Cons True b join by (cases "n = rel_name d p") auto
  qed
qed simp

lemma scan_tree_hash:
  assumes "proper_fs d F" and "proper d" and "\<And>p. skip p = False"
  shows "hash_of (scan_tree skip sha mtime d F) n = map_option sha (content_at d F n)"
proof -
  have fold: "hash_of (scan_tree skip sha mtime d F) n =
    (if \<exists>p. scanned d p \<and> read_file F p \<noteq> None \<and> rel_name d p = n
     then map_option sha (read_file F (join_path d n)) else None)"
    unfolding scan_tree_def scan_fold_hash [OF assms(1) all_files_distinct assms(3,2)] all_files_set
    by (auto simp: hash_of_def)
  show ?thesis
  proof (cases "\<exists>p. scanned d p \<and> read_file F p \<noteq> None \<and> rel_name d p = n")
    case True
    then obtain p where p: "scanned d p" "read_file F p \<noteq> None" "rel_name d p = n" by blast
    then have pp: "proper p" "strict_prefix d p"
      using assms(1) by (auto simp: proper_fs_def scanned_def)
    have "is_sync_managed_path n" using p by (simp add: scanned_def)
    moreover have "clean_name n" using rel_name_split(2) [OF pp] p(3) by simp
    ultimately show ?thesis using True by (simp add: fold content_at_def)
  next
    case False
    then have "content_at d F n = None"
      using scanned_join [of n d] by (auto simp: content_at_def)
    with fold [unfolded if_not_P [OF False]] show ?thesis by simp
  qed
qed

lemma fold_scan_keys:
  "set (dkeys (fold (scan_entry skip sha mtime d F) ps m)) \<subseteq>
   set (dkeys m) \<union> {rel_name d p |p. scanned d p \<and> read_file F p \<noteq> None}"
proof (induction ps arbitrary: m)
  case (Cons p ps)
  have "set (dkeys (scan_entry skip sha mtime d F p m)) \<subseteq>
      set (dkeys m) \<union> {rel_name d p |p. scanned d p \<and> read_file F p \<noteq> None}"
    by (auto simp: scan_entry_def dset_keys [simplified] split: option.splits)
  then show ?case
    using Cons.IH [of "scan_entry skip sha mtime d F p m"] unfolding fold_Cons comp_def by blast
qed simp

text \<open>Names of the sync surface in the form a scan gives them.\<close>

definition valid_name :: "str \<Rightarrow> bool" where
  "valid_name n \<longleftrightarrow> is_sync_managed_path n \<and> clean_name n"

lemma content_at_valid: "valid_name n \<Longrightarrow> content_at d F n = read_file F (join_path d n)"
  by (simp add: content_at_def valid_name_def)

lemma content_at_invalid: "\<not> valid_name n \<Longrightarrow> content_at d F n = None"
  by (auto simp add: content_at_def valid_name_def)

lemma valid_proper: "valid_name n \<Longrightarrow> proper d \<Longrightarrow> proper (join_path d n)"
  using managed_parts(1) by (simp add: valid_name_def join_clean)

lemma valid_join_inj: "valid_name m \<Longrightarrow> valid_name n \<Longrightarrow> join_path d m = join_path d n \<longleftrightarrow> m = n"
  using join_clean_inj by (auto simp: valid_name_def)

lemma proper_resolve: "proper p \<Longrightarrow> resolve_path p = p"
  by (intro resolve_no_parent) (auto simp: proper_def list_all_iff)

lemma proper_no_parent: "proper d \<Longrightarrow> ''..'' \<notin> set d"
  by (auto simp: proper_def list_all_iff)

text \<open>A tree stays proper when only files under valid or unscanned names change.\<close>

lemma proper_fs_change:
  assumes "proper_fs d F" and "proper d"
    and "\<And>q. scanned d q \<Longrightarrow> q \<notin> join_path d ` {n. valid_name n} \<Longrightarrow> read_file F' q = read_file F q"
  shows "proper_fs d F'"
  unfolding proper_fs_def
proof (intro allI impI)
  fix p
  assume p: "scanned d p \<and> read_file F' p \<noteq> None"
  show "proper p"
  proof (cases "p \<in> join_path d ` {n. valid_name n}")
    case True
    then show ?thesis using valid_proper assms(2) by auto
  next
    case False
    then show ?thesis using p assms(1,3) by (auto simp: proper_fs_def)
  qed
qed

section \<open>The interface\<close>

text \<open>A scan records, for every name, the hash of the content the tree holds under it.\<close>

locale content_scan =
  fixes scan :: "'t \<Rightarrow> manifest" and view :: "'t \<Rightarrow> str \<Rightarrow> bytes option"
    and sha :: "bytes \<Rightarrow> str" and good :: "'t \<Rightarrow> bool"
  assumes scan_hash: "good t \<Longrightarrow> hash_of (scan t) n = map_option sha (view t n)"
begin

lemma scan_absent: "good t \<Longrightarrow> n \<notin> set (dkeys (scan t)) \<longleftrightarrow> view t n = None"
  using scan_hash [of t n] dget_None_iff [of "scan t" n] by (auto simp: hash_of_def)

lemma same_view_same_hash:
  "good t \<Longrightarrow> good u \<Longrightarrow> view t n = view u n \<Longrightarrow> hash_of (scan t) n = hash_of (scan u) n"
  by (simp add: scan_hash)

lemma same_view_idle:
  assumes "good t" and "good u" and "\<And>n. view t n = view u n"
  shows "\<not> pending (compute_sync_plan (scan t) m (scan u))"
  using same_view_same_hash [OF assms(1,2) assms(3)] by (simp add: plan_idle)

end

end
