(* ===== verification/StorageQuota.thy ===== *)
theory StorageQuota
  imports TreeScan
begin

text \<open>
  The storage quota of \<^verbatim>\<open>backend/services/storage_quota.py\<close>: \<open>ContentSizeTracker\<close> counts the bytes of
  the files under the content directory whose path has no hidden component.
\<close>

record tracker =
  tracked_dir :: path
  max_size :: "nat option"
  usage :: nat

definition is_tracked_path :: "tracker \<Rightarrow> path \<Rightarrow> bool" where
  "is_tracked_path t p =
     (if \<not> prefix (tracked_dir t) p then False
      else let relative_parts = drop (length (tracked_dir t)) p in
        relative_parts \<noteq> [] \<and> list_all (\<lambda>part. \<not> startswith part ''.'') relative_parts)"

text \<open>\<open>file_size\<close>: a failing \<open>lstat\<close> counts as no file.\<close>

definition tracked_file_size :: "io_faults \<Rightarrow> fs \<Rightarrow> tracker \<Rightarrow> path \<Rightarrow> nat" where
  "tracked_file_size io F t p =
     (if \<not> is_tracked_path t p then 0
      else (case read_file F p of
              Some b \<Rightarrow> if io StatFile p then 0 else length b
            | None \<Rightarrow> 0))"

definition delta_for_paths :: "io_faults \<Rightarrow> fs \<Rightarrow> tracker \<Rightarrow> (path \<times> nat option) list \<Rightarrow> int" where
  "delta_for_paths io F t updated_sizes =
     (\<Sum>(p, new_size) \<leftarrow> updated_sizes.
        int (case new_size of None \<Rightarrow> 0 | Some n \<Rightarrow> n) - int (tracked_file_size io F t p))"

definition recompute :: "io_faults \<Rightarrow> fs \<Rightarrow> tracker \<Rightarrow> tracker" where
  "recompute io F t =
     (if io WalkContent (tracked_dir t) then t
      else t\<lparr>usage := (\<Sum>p \<leftarrow> all_files F. tracked_file_size io F t p)\<rparr>)"

definition check :: "tracker \<Rightarrow> nat \<Rightarrow> bool" where
  "check t incoming_bytes = (case max_size t of None \<Rightarrow> True | Some m \<Rightarrow> usage t + incoming_bytes \<le> m)"

text \<open>\<open>require_quota\<close> is true where the code raises no \<open>QuotaExceededError\<close>.\<close>

definition require_quota :: "tracker \<Rightarrow> int \<Rightarrow> bool" where
  "require_quota t delta = (\<not> (delta > 0 \<and> \<not> check t (nat delta)))"

definition adjust :: "tracker \<Rightarrow> int \<Rightarrow> tracker" where
  "adjust t delta = t\<lparr>usage := nat (max 0 (int (usage t) + delta))\<rparr>"

section \<open>The counter follows the files\<close>

lemma tracked_absent: "read_file F p = None \<Longrightarrow> tracked_file_size io F t p = 0"
  by (simp add: tracked_file_size_def)

definition total_size :: "io_faults \<Rightarrow> fs \<Rightarrow> tracker \<Rightarrow> nat" where
  "total_size io F t = (\<Sum>p\<in>{p. read_file F p \<noteq> None}. tracked_file_size io F t p)"

lemma finite_files: "finite {p. read_file F p \<noteq> None}"
  unfolding all_files_set [symmetric] by simp

lemma recompute_total: "\<not> io WalkContent (tracked_dir t) \<Longrightarrow> usage (recompute io F t) = total_size io F t"
proof -
  assume "\<not> io WalkContent (tracked_dir t)"
  then have "usage (recompute io F t) = (\<Sum>p\<in>set (all_files F). tracked_file_size io F t p)"
    by (simp add: recompute_def sum_list_distinct_conv_sum_set all_files_def)
  then show ?thesis by (simp only: all_files_set total_size_def)
qed

lemma total_size_change:
  assumes same: "\<And>q. q \<noteq> p \<Longrightarrow> read_file F' q = read_file F q"
  shows "int (total_size io F' t) = int (total_size io F t) + int (tracked_file_size io F' t p) - int (tracked_file_size io F t p)"
proof -
  let ?S = "insert p ({q. read_file F q \<noteq> None} \<union> {q. read_file F' q \<noteq> None})"
  have fin: "finite ?S" using finite_files by blast
  have total: "total_size io G t = (\<Sum>q\<in>?S. tracked_file_size io G t q)" if "G = F \<or> G = F'" for G
    unfolding total_size_def using fin that
    by (intro sum.mono_neutral_left) (auto simp: tracked_absent)
  have rest: "(\<Sum>q\<in>?S - {p}. tracked_file_size io F' t q) = (\<Sum>q\<in>?S - {p}. tracked_file_size io F t q)"
    using same by (intro sum.cong) (auto simp: tracked_file_size_def)
  have "(\<Sum>q\<in>?S. tracked_file_size io G t q) =
      tracked_file_size io G t p + (\<Sum>q\<in>?S - {p}. tracked_file_size io G t q)" for G
    using fin by (intro sum.remove) auto
  then show ?thesis using total [of F] total [of F'] rest by simp
qed

section \<open>Properties\<close>

text \<open>
  C18. A tracked write keeps the counter exact: a counter that agrees with the files and is adjusted
  by the announced delta agrees with the files after the write, and when the quota admitted the
  delta the content fits the limit or has not grown.
\<close>

theorem tracked_write_keeps_usage:
  assumes "usage t = total_size io F t" and "write_file io WriteFile F p b = Some F'"
    and "is_tracked_path t p" and "\<not> io StatFile p"
    and "delta = delta_for_paths io F t [(p, Some (length b))]" and "require_quota t delta"
  shows "usage (adjust t delta) = total_size io F' t \<and>
    (max_size t = Some m \<longrightarrow> total_size io F' t \<le> m \<or> total_size io F' t \<le> total_size io F t)"
proof -
  have read: "read_file F' q = (if q = p then Some b else read_file F q)" for q
    by (rule read_write_file [OF assms(2)])
  have "tracked_file_size io F' t p = length b"
    using assms(3,4) read by (simp add: tracked_file_size_def)
  then have total: "int (total_size io F' t) = int (usage t) + delta"
    using total_size_change [of p F' F io t] read assms(1,5) by (simp add: delta_for_paths_def)
  then show ?thesis
    using assms(1,6) by (auto simp: adjust_def require_quota_def check_def)
qed

theorem tracked_write_keeps_usage_witness:
  "let F = \<lparr>files = [], dirs = [[''c'']]\<rparr>; t = \<lparr>tracked_dir = [''c''], max_size = Some 10, usage = 0\<rparr> in
   usage (adjust t 3) = 3"
proof -
  define F where "F = \<lparr>files = [], dirs = [[''c'']]\<rparr>"
  define F' where "F' = \<lparr>files = [([''c'', ''a''], ''xyz'')], dirs = [[''c'']]\<rparr>"
  define t where "t = \<lparr>tracked_dir = [''c''], max_size = Some 10, usage = 0\<rparr>"
  let ?io = "\<lambda>op p. False"
  have "usage t = total_size ?io F t"
    by (simp add: t_def F_def total_size_def read_file_def)
  moreover have "write_file ?io WriteFile F [''c'', ''a''] ''xyz'' = Some F'"
    by (simp add: F_def F'_def write_file_def is_dir_def)
  moreover have "is_tracked_path t [''c'', ''a'']" by (simp add: t_def is_tracked_path_def)
  moreover have "3 = delta_for_paths ?io F t [([''c'', ''a''], Some (length ''xyz''))]"
    by (simp add: delta_for_paths_def tracked_file_size_def F_def read_file_def)
  moreover have "require_quota t 3" by (simp add: t_def require_quota_def check_def)
  ultimately have "usage (adjust t 3) = total_size ?io F' t"
    using tracked_write_keeps_usage [of t ?io F "[''c'', ''a'']" "''xyz''" F' 3 10] by simp
  moreover have "total_size ?io F' t = 3"
  proof -
    have "{p. read_file F' p \<noteq> None} = {[''c'', ''a'']}" by (auto simp: read_file_def F'_def)
    then show ?thesis
      by (simp add: total_size_def tracked_file_size_def is_tracked_path_def t_def read_file_def F'_def)
  qed
  ultimately show ?thesis by (simp add: t_def Let_def)
qed

end
