(* ===== verification/SyncCommit.thy ===== *)
theory SyncCommit
  imports SyncNormalize StorageQuota
begin

text \<open>
  The sync endpoints of \<^verbatim>\<open>backend/api/sync.py\<close>: status, download and commit, with the scan and the
  manifest of \<^verbatim>\<open>backend/services/sync_service.py\<close>. The commit is one function on the state of the
  server: request checks, deletions, uploads with their merges, normalisation, the quota, git, the
  manifest and the caches, with the rollback of every path that raises before git.
\<close>

section \<open>State and surroundings\<close>

datatype exn = Http http_error | UnexpectedError

text \<open>A call whose failures the caller catches in part: it returns, raises what is caught, or raises
  something else.\<close>

datatype 'a call_result = Returns 'a | Caught | Escapes

text \<open>
  What the handlers use of the outside: the libraries, the I/O faults, the git process, JSON
  decoding, SHA-256, modification times, the order in which a set of front matter keys is visited
  for three given texts, and the outcomes of the database and of the cache services.
\<close>

record 'g sync_env =
  env_ext :: externals
  env_io :: io_faults
  env_git :: "'g git_run"
  json_loads :: "str \<Rightarrow> pyval option"
  sha256 :: "bytes \<Rightarrow> str"
  mtime_of :: "path \<Rightarrow> str"
  key_order :: "str option \<Rightarrow> str \<Rightarrow> str \<Rightarrow> str list"
  now_text :: str
  manifest_update :: "unit call_result"
  reload_config :: "unit call_result"
  rebuild_caches :: "fs \<Rightarrow> str list call_result"

record 'g server =
  srv_dir :: path
  srv_fs :: fs
  srv_manifest :: manifest
  srv_repo :: 'g
  srv_tracker :: tracker

record conflict_info =
  info_path :: str
  info_body_conflicted :: bool
  info_field_conflicts :: "str list"

record commit_response =
  resp_status :: str
  files_synced :: nat
  resp_warnings :: "str list"
  commit_hash :: "str option"
  resp_conflicts :: "conflict_info list"
  resp_to_download :: "str list"

text \<open>The local variables of a commit; \<open>original_files\<close> is the undo log.\<close>

record commit_state =
  cs_fs :: fs
  original_files :: originals
  sync_warnings :: "str list"
  commit_conflicts :: "conflict_info list"
  download_list :: "str list"
  uploaded_paths :: "str list"
  successful_deletions :: nat

type_synonym commit_step = "(exn \<times> commit_state) + commit_state"

definition commit_warn :: "str \<Rightarrow> commit_state \<Rightarrow> commit_state" where
  "commit_warn w s = s\<lparr>sync_warnings := sync_warnings s @ [w]\<rparr>"

definition io_error :: exn where
  "io_error = Http (HTTPException 500 ''File I/O error during sync'')"

section \<open>Scan, manifest, status and download\<close>

definition scan_content_files :: "'g sync_env \<Rightarrow> path \<Rightarrow> fs \<Rightarrow> manifest" where
  "scan_content_files E content_dir F = scan_tree (env_io E ScanFile) (sha256 E) (mtime_of E) content_dir F"

text \<open>The response of \<open>sync_status\<close>: the plan, the head commit and whether git answered.\<close>

definition sync_status ::
  "'g sync_env \<Rightarrow> file_entry list \<Rightarrow> 'g server \<Rightarrow> 'g \<times> sync_plan \<times> str option \<times> str list" where
  "sync_status E entries S =
     (let client_manifest = fold (\<lambda>e m. dset (file_path e) e m) entries [];
          server_current = scan_content_files E (srv_dir S) (srv_fs S);
          plan = compute_sync_plan client_manifest (srv_manifest S) server_current
      in case head_commit (env_git E) (srv_repo S) of
           (r, Inr h) \<Rightarrow> (r, plan, h, [])
         | (r, Inl _) \<Rightarrow> (r, plan, None,
             [''Git history unavailable; sync may not detect all changes correctly.'']))"

definition sync_download :: "'g server \<Rightarrow> str \<Rightarrow> http_error + path" where
  "sync_download S name =
     (case resolve_safe_path resolve_path (srv_dir S) name of
        Inl e \<Rightarrow> Inl e
      | Inr full_path \<Rightarrow>
          if \<not> path_exists (srv_fs S) full_path then Inl (HTTPException 404 ''File not found'')
          else Inr full_path)"

section \<open>Reading the request\<close>

definition is_str :: "pyval \<Rightarrow> bool" where
  "is_str v = (case v of PStr _ \<Rightarrow> True | _ \<Rightarrow> False)"

fun the_str :: "pyval \<Rightarrow> str" where
  "the_str (PStr s) = s"
| "the_str _ = []"

text \<open>The metadata: the deleted files and the commit of the last sync.\<close>

definition parse_metadata :: "'g sync_env \<Rightarrow> str \<Rightarrow> exn + (str list \<times> str option)" where
  "parse_metadata E metadata_json =
     (case json_loads E metadata_json of
        None \<Rightarrow> Inl (Http (HTTPException 400 ''Invalid metadata JSON''))
      | Some (PDict d) \<Rightarrow>
          (let raw_deleted = (case dget d ''deleted_files'' of None \<Rightarrow> PList [] | Some v \<Rightarrow> v);
               raw_commit = mget d ''last_sync_commit'' in
           case raw_deleted of
             PList xs \<Rightarrow>
               if \<not> list_all is_str xs then
                 Inl (Http (HTTPException 400 ''deleted_files must be a list of strings''))
               else if raw_commit \<noteq> PNone \<and> \<not> is_str raw_commit then
                 Inl (Http (HTTPException 400 ''last_sync_commit must be a string or null''))
               else Inr (map the_str xs, if raw_commit = PNone then None else Some (the_str raw_commit))
           | _ \<Rightarrow> Inl (Http (HTTPException 400 ''deleted_files must be a list of strings'')))
      | Some _ \<Rightarrow> Inl UnexpectedError)"

definition max_upload_size :: nat where
  "max_upload_size = 10 * 1024 * 1024"

text \<open>The uploads by file name; an upload without one is ignored, a later one replaces an earlier.\<close>

fun read_uploads :: "(str option \<times> bytes) list \<Rightarrow> bytes dict \<Rightarrow> exn + bytes dict" where
  "read_uploads [] upload_data = Inr upload_data"
| "read_uploads ((None, b) # us) upload_data = read_uploads us upload_data"
| "read_uploads ((Some filename, b) # us) upload_data =
     (if length b > max_upload_size then
        Inl (Http (HTTPException 413 (''File too large (max 10 MB): '' @ lstrip_char (CHR ''/'') filename)))
      else read_uploads us (dset filename b upload_data))"

section \<open>Deletions\<close>

definition delete_one :: "'g sync_env \<Rightarrow> path \<Rightarrow> str \<Rightarrow> commit_state \<Rightarrow> commit_step" where
  "delete_one E content_dir name s =
     (case resolve_safe_path resolve_path content_dir name of
        Inl e \<Rightarrow> Inl (Http e, s)
      | Inr full_path \<Rightarrow>
          if path_exists (cs_fs s) full_path \<and> is_file (cs_fs s) full_path then
            (case remember_original_file (env_io E) (original_files s) name full_path (cs_fs s) of
               Inl e \<Rightarrow> Inl (Http e, s)
             | Inr originals \<Rightarrow>
                 (let s1 = s\<lparr>original_files := originals\<rparr> in
                  case unlink (env_io E) Unlink (cs_fs s1) full_path of
                    None \<Rightarrow> Inr (commit_warn (''Failed to delete '' @ lstrip_char (CHR ''/'') name) s1)
                  | Some F' \<Rightarrow> Inr (s1\<lparr>
                      cs_fs := prune_empty_directories (env_io E) F' (butlast full_path) content_dir,
                      successful_deletions := Suc (successful_deletions s1)\<rparr>)))
          else Inr s)"

section \<open>Uploads\<close>

text \<open>\<open>_get_base_content\<close>: the text of the file at the last synced commit, and whether git failed.
  Reading leaves the repository as it is.\<close>

definition get_base_content :: "'g sync_env \<Rightarrow> 'g \<Rightarrow> str option \<Rightarrow> str \<Rightarrow> str option \<times> bool" where
  "get_base_content E repo last_sync_commit name =
     (case last_sync_commit of
        None \<Rightarrow> (None, False)
      | Some c \<Rightarrow>
          (case snd (commit_exists (env_git E) c repo) of
             Inl _ \<Rightarrow> (None, True)
           | Inr False \<Rightarrow> (None, False)
           | Inr True \<Rightarrow>
               (case snd (show_file_at_commit (env_git E) c name repo) of
                  Inl _ \<Rightarrow> (None, True)
                | Inr shown \<Rightarrow> (shown, False))))"

text \<open>Creating the parent directory and writing the upload; writing a merged text over a file.\<close>

definition store_upload :: "'g sync_env \<Rightarrow> path \<Rightarrow> bytes \<Rightarrow> str \<Rightarrow> commit_state \<Rightarrow> commit_step" where
  "store_upload E full_path b target_path s =
     (case mkdirs (env_io E) Mkdir (cs_fs s) (butlast full_path) of
        None \<Rightarrow> Inl (io_error, s)
      | Some F1 \<Rightarrow>
          (case write_file (env_io E) WriteFile F1 full_path b of
             None \<Rightarrow> Inl (io_error, s\<lparr>cs_fs := F1\<rparr>)
           | Some F2 \<Rightarrow> Inr (s\<lparr>cs_fs := F2, uploaded_paths := uploaded_paths s @ [target_path]\<rparr>)))"

definition store_merged :: "'g sync_env \<Rightarrow> path \<Rightarrow> str \<Rightarrow> str \<Rightarrow> commit_state \<Rightarrow> commit_step" where
  "store_merged E full_path text target_path s =
     (case write_file (env_io E) WriteFile (cs_fs s) full_path text of
        None \<Rightarrow> Inl (io_error, s)
      | Some F' \<Rightarrow> Inr (s\<lparr>cs_fs := F', download_list := download_list s @ [target_path],
          uploaded_paths := uploaded_paths s @ [target_path]\<rparr>))"

definition add_info :: "str \<Rightarrow> bool \<Rightarrow> str list \<Rightarrow> commit_state \<Rightarrow> commit_state" where
  "add_info name conflicted fcs s = s\<lparr>commit_conflicts := commit_conflicts s @
     [\<lparr>info_path = name, info_body_conflicted = conflicted, info_field_conflicts = fcs\<rparr>]\<rparr>"

definition warn_if :: "bool \<Rightarrow> str \<Rightarrow> commit_state \<Rightarrow> commit_state" where
  "warn_if b w s = (if b then commit_warn w s else s)"

definition base_warning :: "str \<Rightarrow> str" where
  "base_warning name = ''Could not retrieve merge base for '' @ name @ ''; three-way merge was not possible.''"

text \<open>The branch for \<^verbatim>\<open>labels.toml\<close>.\<close>

definition upload_labels ::
  "'g sync_env \<Rightarrow> 'g \<Rightarrow> str option \<Rightarrow> path \<Rightarrow> str \<Rightarrow> str \<Rightarrow> str \<Rightarrow> commit_state \<Rightarrow> commit_step" where
  "upload_labels E repo last_sync_commit full_path target_path server_content client_text s =
     (let (base_content, base_git_error) = get_base_content E repo last_sync_commit target_path;
          s1 = warn_if base_git_error (base_warning target_path) s in
      case merge_labels_toml (env_ext E) base_content server_content client_text of
        None \<Rightarrow> Inl (UnexpectedError, s1)
      | Some r \<Rightarrow>
          (let real_field_conflicts = filter (\<lambda>fc. \<not> startswith fc ''_'') (labels_conflicts r);
               s2 = warn_if (''_parse_error'' \<in> set (labels_conflicts r))
                 ''Could not parse labels.toml during merge; your version was kept but the file may be corrupted.'' s1;
               s3 = (if real_field_conflicts \<noteq> [] then add_info target_path False real_field_conflicts s2 else s2)
           in store_merged E full_path (labels_content r) target_path s3))"

text \<open>The branch for posts.\<close>

definition upload_post ::
  "'g sync_env \<Rightarrow> 'g \<Rightarrow> str option \<Rightarrow> path \<Rightarrow> str \<Rightarrow> str \<Rightarrow> str \<Rightarrow> commit_state \<Rightarrow> commit_step" where
  "upload_post E repo last_sync_commit full_path target_path server_content client_text s =
     (let (base_content, base_git_error) = get_base_content E repo last_sync_commit target_path;
          s1 = warn_if base_git_error (base_warning target_path) s in
      case merge_post_file (env_ext E) (key_order E base_content server_content client_text)
          base_content server_content client_text of
        None \<Rightarrow> Inl (UnexpectedError, s1)
      | Some r \<Rightarrow>
          (let s2 = (if body_conflicted r \<or> post_field_conflicts r \<noteq> []
                 then add_info target_path (body_conflicted r) (post_field_conflicts r) s1 else s1)
           in store_merged E full_path (merged_content r) target_path s2))"

text \<open>The server's text of a file: \<open>Inl\<close> when it cannot be read, \<open>None\<close> for an absent or binary one.\<close>

definition read_server_content :: "io_faults \<Rightarrow> fs \<Rightarrow> path \<Rightarrow> exn + str option" where
  "read_server_content io F full_path =
     (case read_file F full_path of
        None \<Rightarrow> Inr None
      | Some b \<Rightarrow> if io ReadText full_path then Inl io_error
          else Inr (map_option universal_newlines (decode_utf8 b)))"

text \<open>One round of the loop over the uploads.\<close>

definition upload_one ::
  "'g sync_env \<Rightarrow> path \<Rightarrow> 'g \<Rightarrow> str option \<Rightarrow> str \<times> bytes \<Rightarrow> commit_state \<Rightarrow> commit_step" where
  "upload_one E content_dir repo last_sync_commit = (\<lambda>(filename, upload_content) s.
     let target_path = lstrip_char (CHR ''/'') filename in
     case resolve_safe_path resolve_path content_dir target_path of
       Inl e \<Rightarrow> Inl (Http e, s)
     | Inr full_path \<Rightarrow>
     (case remember_original_file (env_io E) (original_files s) target_path full_path (cs_fs s) of
       Inl e \<Rightarrow> Inl (Http e, s)
     | Inr originals \<Rightarrow>
     (let s1 = s\<lparr>original_files := originals\<rparr> in
     case read_server_content (env_io E) (cs_fs s1) full_path of
       Inl e \<Rightarrow> Inl (e, s1)
     | Inr server_content \<Rightarrow>
     (case decode_utf8 upload_content of
       None \<Rightarrow> store_upload E full_path upload_content target_path s1
     | Some client_text \<Rightarrow>
     (case server_content of
       Some server_text \<Rightarrow>
         if server_text \<noteq> client_text \<and> target_path = ''labels.toml'' then
           upload_labels E repo last_sync_commit full_path target_path server_text client_text s1
         else if server_text \<noteq> client_text \<and> is_directory_post_path target_path then
           upload_post E repo last_sync_commit full_path target_path server_text client_text s1
         else store_upload E full_path client_text target_path s1
     | None \<Rightarrow> store_upload E full_path client_text target_path s1)))))"

text \<open>Normalising what was uploaded; the posts it changed have to be downloaded again.\<close>

definition normalize_step :: "'g sync_env \<Rightarrow> path \<Rightarrow> manifest \<Rightarrow> commit_state \<Rightarrow> (exn \<times> commit_state) + (commit_state \<times> str list)" where
  "normalize_step E content_dir old_manifest s =
     (case normalize_post_frontmatter (env_ext E) (env_io E) (now_text E) (uploaded_paths s) old_manifest
         content_dir (download_list s) (cs_fs s) of
        Inl F \<Rightarrow> Inl (UnexpectedError, s\<lparr>cs_fs := F\<rparr>)
      | Inr r \<Rightarrow> Inr (s\<lparr>cs_fs := norm_fs r,
          download_list := fold (\<lambda>fp l. if fp \<in> set l then l else l @ [fp]) (modified_files r) (download_list s)\<rparr>,
          norm_warnings r))"

text \<open>The body of the \<open>try\<close> block.\<close>

definition mutation_phase ::
  "'g sync_env \<Rightarrow> path \<Rightarrow> 'g \<Rightarrow> manifest \<Rightarrow> str list \<Rightarrow> str option \<Rightarrow> bytes dict \<Rightarrow> commit_state
   \<Rightarrow> (exn \<times> commit_state) + (commit_state \<times> str list)" where
  "mutation_phase E content_dir repo old_manifest deleted_files last_sync_commit upload_data s =
     (case run_steps (delete_one E content_dir) deleted_files s of
        Inl r \<Rightarrow> Inl r
      | Inr s1 \<Rightarrow>
     (case run_steps (upload_one E content_dir repo last_sync_commit) upload_data s1 of
        Inl r \<Rightarrow> Inl r
      | Inr s2 \<Rightarrow> normalize_step E content_dir old_manifest s2))"

section \<open>The commit\<close>

text \<open>
  How a commit ends: with its response; with an exception before git, after a rollback that failed
  for the names in the list (they are logged); or with an exception of a later stage, which is not
  rolled back.
\<close>

datatype commit_outcome =
  Committed commit_response | RolledBack exn "str list" | AbortedLate

definition roll_back :: "'g sync_env \<Rightarrow> 'g server \<Rightarrow> exn \<Rightarrow> originals \<Rightarrow> fs \<Rightarrow> 'g server \<times> commit_outcome" where
  "roll_back E S e originals F =
     (let (F', failures) = restore_original_files (env_io E) (srv_dir S) originals F
      in (S\<lparr>srv_fs := F'\<rparr>, RolledBack e failures))"

text \<open>The commit to git: the repository, the warnings, and whether it failed.\<close>

definition git_phase :: "'g sync_env \<Rightarrow> str \<Rightarrow> 'g \<Rightarrow> 'g \<times> str list \<times> bool" where
  "git_phase E username repo =
     (case commit_all (env_git E) (''Sync commit by '' @ username) repo of
        (r, Inr _) \<Rightarrow> (r, [], False)
      | (r, Inl _) \<Rightarrow> (r, [''Git commit failed; sync history may be degraded. Three-way merge on the next sync may produce incorrect results.''], True))"

text \<open>Scanning and storing the new manifest.\<close>

definition manifest_phase :: "'g sync_env \<Rightarrow> 'g server \<Rightarrow> ('g server \<times> str list) option" where
  "manifest_phase E S = (case manifest_update E of
     Returns _ \<Rightarrow> Some (S\<lparr>srv_manifest := scan_content_files E (srv_dir S) (srv_fs S)\<rparr>, [])
   | Caught \<Rightarrow> Some (S, [''Server manifest update failed; next sync may show stale data.''])
   | Escapes \<Rightarrow> None)"

definition reload_phase :: "'g sync_env \<Rightarrow> str list option" where
  "reload_phase E = (case reload_config E of
     Returns _ \<Rightarrow> Some []
   | Caught \<Rightarrow> Some [''Config reload failed; site settings may be stale until restart.'']
   | Escapes \<Rightarrow> None)"

definition cache_phase :: "'g sync_env \<Rightarrow> 'g server \<Rightarrow> ('g server \<times> str list \<times> str list) option" where
  "cache_phase E S = (case rebuild_caches E (srv_fs S) of
     Returns warnings \<Rightarrow> Some (S\<lparr>srv_tracker := recompute (env_io E) (srv_fs S) (srv_tracker S)\<rparr>, [], warnings)
   | Caught \<Rightarrow> Some (S, [''Cache rebuild failed after sync; search and listing data may be stale until the next server restart.''], [])
   | Escapes \<Rightarrow> None)"

definition head_phase :: "'g sync_env \<Rightarrow> bool \<Rightarrow> 'g \<Rightarrow> 'g \<times> str option \<times> str list" where
  "head_phase E git_failed repo =
     (if git_failed then (repo, None, [])
      else (case head_commit (env_git E) repo of
              (r, Inr h) \<Rightarrow> (r, h, [])
            | (r, Inl _) \<Rightarrow> (r, None, [''Failed to read commit hash after sync; data was committed successfully but sync history tracking may be degraded.''])))"

text \<open>What follows a mutation phase whose result fits the quota.\<close>

definition finish_commit ::
  "'g sync_env \<Rightarrow> str \<Rightarrow> 'g server \<Rightarrow> commit_state \<Rightarrow> str list \<Rightarrow> 'g server \<times> commit_outcome" where
  "finish_commit E username S s fm_warnings =
     (let (r1, w1, git_failed) = git_phase E username (srv_repo S);
          S1 = S\<lparr>srv_repo := r1\<rparr> in
      case manifest_phase E S1 of
        None \<Rightarrow> (S1, AbortedLate)
      | Some (S2, w2) \<Rightarrow>
      (case reload_phase E of
        None \<Rightarrow> (S2, AbortedLate)
      | Some w3 \<Rightarrow>
      (case cache_phase E S2 of
        None \<Rightarrow> (S2, AbortedLate)
      | Some (S3, w4, cache_warnings) \<Rightarrow>
          (let (r4, h, w5) = head_phase E git_failed (srv_repo S3) in
           (S3\<lparr>srv_repo := r4\<rparr>, Committed
             \<lparr>resp_status = (if git_failed then ''error'' else ''ok''),
              files_synced = length (uploaded_paths s) + successful_deletions s,
              resp_warnings = (sync_warnings s @ w1 @ w2 @ w3 @ w4 @ w5) @ fm_warnings @ cache_warnings,
              commit_hash = h, resp_conflicts = commit_conflicts s,
              resp_to_download = download_list s\<rparr>)))))"

definition start_state :: "fs \<Rightarrow> commit_state" where
  "start_state F = \<lparr>cs_fs = F, original_files = [], sync_warnings = [], commit_conflicts = [],
     download_list = [], uploaded_paths = [], successful_deletions = 0\<rparr>"

text \<open>What becomes of the mutation phase's result: the rollbacks, or the later stages.\<close>

definition settle_commit ::
  "'g sync_env \<Rightarrow> str \<Rightarrow> 'g server \<Rightarrow> (exn \<times> commit_state) + (commit_state \<times> str list)
   \<Rightarrow> 'g server \<times> commit_outcome" where
  "settle_commit E username S result = (case result of
     Inl (Http e, s) \<Rightarrow> roll_back E S (Http e) (original_files s) (cs_fs s)
   | Inl (UnexpectedError, s) \<Rightarrow>
       roll_back E S (Http (HTTPException 500 ''Internal error during sync'')) (original_files s) (cs_fs s)
   | Inr (s, fm_warnings) \<Rightarrow>
       (let S1 = S\<lparr>srv_fs := cs_fs s, srv_tracker := recompute (env_io E) (cs_fs s) (srv_tracker S)\<rparr> in
        if \<not> check (srv_tracker S1) 0 then
          (let (S2, outcome) = roll_back E S1 (Http (HTTPException 413 ''Storage limit reached''))
                 (original_files s) (cs_fs s)
           in (S2\<lparr>srv_tracker := recompute (env_io E) (srv_fs S2) (srv_tracker S2)\<rparr>, outcome))
        else finish_commit E username S1 s fm_warnings))"

definition sync_commit ::
  "'g sync_env \<Rightarrow> str \<Rightarrow> str \<Rightarrow> (str option \<times> bytes) list \<Rightarrow> 'g server \<Rightarrow> 'g server \<times> commit_outcome" where
  "sync_commit E username metadata_json upload_files S =
     (case parse_metadata E metadata_json of
        Inl e \<Rightarrow> (S, RolledBack e [])
      | Inr (deleted_files, last_sync_commit) \<Rightarrow>
     (case read_uploads upload_files [] of
        Inl e \<Rightarrow> (S, RolledBack e [])
      | Inr upload_data \<Rightarrow>
          settle_commit E username S
            (mutation_phase E (srv_dir S) (srv_repo S) (srv_manifest S) deleted_files last_sync_commit
               upload_data (start_state (srv_fs S)))))"

section \<open>The undo log covers every change\<close>

text \<open>The pieces a step is built of.\<close>

lemma warn_fields [simp]:
  "original_files (commit_warn w s) = original_files s" "cs_fs (commit_warn w s) = cs_fs s"
  "uploaded_paths (commit_warn w s) = uploaded_paths s"
  "original_files (warn_if b w s) = original_files s" "cs_fs (warn_if b w s) = cs_fs s"
  "uploaded_paths (warn_if b w s) = uploaded_paths s"
  "original_files (add_info n c l s) = original_files s" "cs_fs (add_info n c l s) = cs_fs s"
  "uploaded_paths (add_info n c l s) = uploaded_paths s"
  by (simp_all add: commit_warn_def warn_if_def add_info_def)

text \<open>Storing a file under \<open>fp\<close> changes nothing else, keeps the log and uploads no other name.\<close>

definition touches :: "path \<Rightarrow> str \<Rightarrow> commit_state \<Rightarrow> commit_state \<Rightarrow> bool" where
  "touches fp n s s' \<longleftrightarrow> original_files s' = original_files s \<and>
     (\<forall>q. q \<noteq> fp \<longrightarrow> read_file (cs_fs s') q = read_file (cs_fs s) q) \<and>
     set (uploaded_paths s') \<subseteq> insert n (set (uploaded_paths s))"

definition same_files :: "commit_state \<Rightarrow> commit_state \<Rightarrow> bool" where
  "same_files s s' \<longleftrightarrow> original_files s' = original_files s \<and> cs_fs s' = cs_fs s \<and>
     uploaded_paths s' = uploaded_paths s"

lemma same_files_simps [simp]:
  "same_files s s" "same_files s (commit_warn w s1) = same_files s s1"
  "same_files s (warn_if b w s1) = same_files s s1" "same_files s (add_info n c l s1) = same_files s s1"
  by (auto simp: same_files_def)

lemma same_files_touches: "same_files s s1 \<Longrightarrow> touches fp n s s1"
  by (auto simp: same_files_def touches_def)

lemma store_upload_touches: "touches fp n s (after (store_upload E fp b n s))"
  by (auto simp: store_upload_def touches_def read_write_file split: option.split)

lemma store_merged_touches: "same_files s s1 \<Longrightarrow> touches fp n s (after (store_merged E fp t n s1))"
  by (auto simp: store_merged_def touches_def same_files_def read_write_file split: option.split)

lemma upload_labels_touches: "touches fp n s (after (upload_labels E repo c fp n st ct s))"
proof -
  obtain base e where base: "get_base_content E repo c n = (base, e)" by fastforce
  show ?thesis
  proof (cases "merge_labels_toml (env_ext E) base st ct")
    case None
    then show ?thesis by (simp add: upload_labels_def base same_files_touches)
  next
    case (Some r)
    show ?thesis
      unfolding upload_labels_def base Let_def prod.case Some option.case
      by (intro store_merged_touches) simp
  qed
qed

lemma upload_post_touches: "touches fp n s (after (upload_post E repo c fp n st ct s))"
proof -
  obtain base e where base: "get_base_content E repo c n = (base, e)" by fastforce
  show ?thesis
  proof (cases "merge_post_file (env_ext E) (key_order E base st ct) base st ct")
    case None
    then show ?thesis by (simp add: upload_post_def base same_files_touches)
  next
    case (Some r)
    show ?thesis
      unfolding upload_post_def base Let_def prod.case Some option.case
      by (intro store_merged_touches) simp
  qed
qed

text \<open>The invariant of the mutation phase: every change is in the log, and so is every upload.\<close>

definition logged :: "path \<Rightarrow> fs \<Rightarrow> commit_state \<Rightarrow> bool" where
  "logged d F0 s \<longleftrightarrow> clean_log (original_files s) \<and> sync_undo.covers d F0 (original_files s) (cs_fs s) \<and>
     (\<forall>n\<in>set (uploaded_paths s). ''..'' \<notin> set (join_path d n) \<and>
        saved_at d (original_files s) (join_path d n) \<noteq> None)"

lemma logged_start: "logged d F (start_state F)"
  unfolding logged_def start_state_def
  by (auto simp: clean_log_def saved_at_def one_name_per_path_def intro: sync_undo.covers_start)

lemma logged_touches:
  assumes "logged d F0 s" and "''..'' \<notin> set (join_path d n)"
    and "saved_at d (original_files s) (join_path d n) \<noteq> None"
    and "touches (join_path d n) n s s'"
  shows "logged d F0 s'"
  using assms sync_undo.covers_change [of d F0 "original_files s" "cs_fs s" "join_path d n" "cs_fs s'"]
  by (auto simp: logged_def touches_def)

lemma logged_remember:
  assumes "logged d F0 s" and "clean_name n"
    and "remember_original_file io (original_files s) n (join_path d n) (cs_fs s) = Inr l"
  shows "logged d F0 (s\<lparr>original_files := l\<rparr>)" "saved_at d l (join_path d n) \<noteq> None"
proof -
  from assms(1) have cov: "sync_undo.covers d F0 (original_files s) (cs_fs s)" "clean_log (original_files s)"
    by (simp_all add: logged_def)
  note rem = remember_covers [OF cov assms(2,3)]
  show "saved_at d l (join_path d n) \<noteq> None" by (rule rem(3))
  have "saved_at d l (join_path d m) \<noteq> None" if "saved_at d (original_files s) (join_path d m) \<noteq> None" for m
    using remember_keeps [OF assms(3) cov(2) assms(2)] that by simp
  then show "logged d F0 (s\<lparr>original_files := l\<rparr>)"
    using assms(1) rem(1,2) by (auto simp: logged_def)
qed

lemma delete_one_logged:
  assumes "logged d F0 s" and "''..'' \<notin> set d" and "clean_name n"
  shows "logged d F0 (after (delete_one E d n s))"
proof (cases "resolve_safe_path resolve_path d n")
  case (Inr fp)
  have fp: "fp = join_path d n" by (rule resolve_safe_path_clean [OF Inr assms(2,3)])
  have up: "''..'' \<notin> set (join_path d n)" by (rule resolve_safe_no_parent [OF Inr assms(2,3)])
  show ?thesis
  proof (cases "path_exists (cs_fs s) fp \<and> is_file (cs_fs s) fp")
    case here: True
    show ?thesis
    proof (cases "remember_original_file (env_io E) (original_files s) n fp (cs_fs s)")
      case (Inl e)
      with Inr here assms(1) show ?thesis by (simp add: delete_one_def)
    next
      case r: (Inr l)
      note rem = logged_remember [OF assms(1,3) r [unfolded fp]]
      have touch: "logged d F0 s'" if "touches fp n (s\<lparr>original_files := l\<rparr>) s'" for s'
        using logged_touches [OF rem(1) up] rem(2) that fp by simp
      show ?thesis
      proof (cases "unlink (env_io E) Unlink (cs_fs s) fp")
        case None
        have "logged d F0 (commit_warn w (s\<lparr>original_files := l\<rparr>))" for w
          by (intro touch same_files_touches) simp
        then show ?thesis using Inr here r None by (simp add: delete_one_def)
      next
        case (Some F')
        show ?thesis
          using Inr here r Some
          by (simp add: delete_one_def, intro touch) (auto simp: touches_def read_unlink [OF Some])
      qed
    qed
  qed (use Inr assms(1) in \<open>auto simp: delete_one_def\<close>)
qed (simp add: delete_one_def assms(1))

lemma upload_one_logged:
  assumes "logged d F0 s" and "''..'' \<notin> set d" and "clean_name (lstrip_char (CHR ''/'') (fst u))"
  shows "logged d F0 (after (upload_one E d repo c u s))"
proof -
  obtain f b where u: "u = (f, b)" by fastforce
  define n where "n = lstrip_char (CHR ''/'') f"
  have n: "clean_name n" using assms(3) by (simp add: u n_def)
  show ?thesis
  proof (cases "resolve_safe_path resolve_path d n")
    case (Inr fp)
    have fp: "fp = join_path d n" by (rule resolve_safe_path_clean [OF Inr assms(2) n])
    have up: "''..'' \<notin> set (join_path d n)" by (rule resolve_safe_no_parent [OF Inr assms(2) n])
    show ?thesis
    proof (cases "remember_original_file (env_io E) (original_files s) n fp (cs_fs s)")
      case r: (Inr l)
      note rem = logged_remember [OF assms(1) n r [unfolded fp]]
      define s1 where "s1 = s\<lparr>original_files := l\<rparr>"
      have touch: "logged d F0 s'" if "touches fp n s1 s'" for s'
        using logged_touches [OF rem(1) up] rem(2) that fp unfolding s1_def by simp
      note pieces = touch [OF store_upload_touches] touch [OF upload_labels_touches]
        touch [OF upload_post_touches] touch [OF same_files_touches [OF same_files_simps(1)]]
      have labels: "logged d F0 (after (upload_labels E repo c fp ''labels.toml'' st ct s1))"
        if "n = ''labels.toml''" for st ct
        using pieces(2) that by simp
      show ?thesis
        using Inr r
        by (simp add: upload_one_def u n_def [symmetric] s1_def [symmetric] pieces labels split: sum.split option.split)
    qed (use Inr assms(1) in \<open>simp add: upload_one_def u n_def [symmetric]\<close>)
  qed (simp add: upload_one_def u n_def [symmetric] assms(1))
qed

lemma normalize_step_covered:
  assumes "logged d F0 s"
  shows "case normalize_step E d m s of
     Inl (e, s') \<Rightarrow> logged d F0 s'
   | Inr (s', w) \<Rightarrow> logged d F0 s'"
proof -
  define r where "r = normalize_post_frontmatter (env_ext E) (env_io E) (now_text E) (uploaded_paths s) m d
    (download_list s) (cs_fs s)"
  let ?F = "case r of Inl F \<Rightarrow> F | Inr n \<Rightarrow> norm_fs n"
  have frame: "read_file ?F q = read_file (cs_fs s) q" if "q \<notin> norm_targets d (uploaded_paths s)" for q
    using normalize_files_targets [OF that] unfolding r_def normalize_post_frontmatter_def by simp
  have "saved_at d (original_files s) q \<noteq> None" if "q \<in> norm_targets d (uploaded_paths s)" for q
    using that assms by (auto simp: norm_targets_def logged_def resolve_no_parent)
  with assms frame have "logged d F0 s'"
    if "original_files s' = original_files s" "uploaded_paths s' = uploaded_paths s" "cs_fs s' = ?F" for s'
    using that unfolding logged_def sync_undo.covers_def by metis
  then show ?thesis
    unfolding normalize_step_def r_def [symmetric] by (cases r) simp_all
qed

lemma mutation_phase_logged:
  assumes "''..'' \<notin> set (srv_dir S)" and "list_all clean_name deleted"
    and "list_all (\<lambda>u. clean_name (lstrip_char (CHR ''/'') (fst u))) uploads"
  shows "case mutation_phase E (srv_dir S) repo m deleted c uploads (start_state F) of
     Inl (e, s') \<Rightarrow> logged (srv_dir S) F s'
   | Inr (s', w) \<Rightarrow> logged (srv_dir S) F s'"
proof -
  let ?d = "srv_dir S" and ?del = "run_steps (delete_one E (srv_dir S)) deleted (start_state F)"
  have del: "logged ?d F (after ?del)"
    using logged_start
  proof (rule run_steps_after)
    show "logged ?d F (after (delete_one E ?d n s))" if "n \<in> set deleted" "logged ?d F s" for n s
      using that assms(1,2) by (intro delete_one_logged) (auto simp: list_all_iff)
  qed
  show ?thesis
  proof (cases ?del)
    case (Inl r)
    with del show ?thesis by (cases r) (simp add: mutation_phase_def)
  next
    case (Inr s1)
    let ?up = "run_steps (upload_one E ?d repo c) uploads s1"
    have up: "logged ?d F (after ?up)"
    proof (rule run_steps_after)
      show "logged ?d F s1" using del Inr by simp
      show "logged ?d F (after (upload_one E ?d repo c u s))" if "u \<in> set uploads" "logged ?d F s" for u s
        using that assms(1,3) by (intro upload_one_logged) (auto simp: list_all_iff)
    qed
    show ?thesis
    proof (cases ?up)
      case (Inl r)
      with up Inr show ?thesis by (cases r) (simp add: mutation_phase_def)
    next
      case up': (Inr s2)
      with up have "logged ?d F s2" by simp
      from normalize_step_covered [OF this] Inr up' show ?thesis
        by (simp add: mutation_phase_def)
    qed
  qed
qed

lemma roll_back_restores:
  assumes "logged (srv_dir S) F0 s" and "roll_back E S' e (original_files s) (cs_fs s) = (S2, RolledBack e' [])"
    and "srv_dir S' = srv_dir S"
  shows "read_file (srv_fs S2) q = read_file F0 q"
proof -
  obtain F' fl where r: "restore_original_files (env_io E) (srv_dir S) (original_files s) (cs_fs s) = (F', fl)"
    by fastforce
  with assms(2,3) have "fl = []" "srv_fs S2 = F'" by (auto simp: roll_back_def)
  with r assms(1) show ?thesis
    by (auto simp: logged_def intro: sync_undo.undo_covered)
qed

lemma read_uploads_keys:
  "read_uploads us D = Inr D' \<Longrightarrow> set (dkeys D') \<subseteq> set (dkeys D) \<union> {f. Some f \<in> fst ` set us}"
proof (induction us D rule: read_uploads.induct)
  case (3 f b us D)
  then show ?case
    using dset_keys [of f b D] by (auto split: if_splits)
qed auto

lemma finish_commit_outcome: "snd (finish_commit E u S s w) \<noteq> RolledBack e fl"
  by (auto simp: finish_commit_def Let_def split: prod.splits option.splits)

definition clean_request :: "'g sync_env \<Rightarrow> str \<Rightarrow> (str option \<times> bytes) list \<Rightarrow> 'g server \<Rightarrow> bool" where
  "clean_request E metadata_json upload_files S \<longleftrightarrow> ''..'' \<notin> set (srv_dir S) \<and>
     (case parse_metadata E metadata_json of Inl _ \<Rightarrow> True | Inr (deleted, _) \<Rightarrow> list_all clean_name deleted) \<and>
     list_all (\<lambda>(f, b). case f of None \<Rightarrow> True | Some f \<Rightarrow> clean_name (lstrip_char (CHR ''/'') f)) upload_files"

text \<open>Whatever the names look like, only managed files change before a rollback.\<close>

definition managed_file :: "path \<Rightarrow> path \<Rightarrow> bool" where
  "managed_file d q \<longleftrightarrow> (\<exists>t. is_sync_managed_path t \<and> q = d @ path_parts t)"

definition unmanaged_kept :: "path \<Rightarrow> fs \<Rightarrow> commit_state \<Rightarrow> bool" where
  "unmanaged_kept d F0 s \<longleftrightarrow> (\<forall>q. \<not> managed_file d q \<longrightarrow> read_file (cs_fs s) q = read_file F0 q) \<and>
     (\<forall>n\<in>set (uploaded_paths s). managed_file d (resolve_path (join_path d n)))"

lemma unmanaged_touches:
  assumes "unmanaged_kept d F0 s" and "cs_fs s1 = cs_fs s" and "uploaded_paths s1 = uploaded_paths s"
    and "touches fp n s1 s'" and "managed_file d fp" and "fp = resolve_path (join_path d n)"
  shows "unmanaged_kept d F0 s'"
  using assms unfolding unmanaged_kept_def touches_def by (metis insert_iff subsetD)

lemma unmanaged_same:
  "unmanaged_kept d F0 s \<Longrightarrow> cs_fs s1 = cs_fs s \<Longrightarrow> uploaded_paths s1 = uploaded_paths s \<Longrightarrow> unmanaged_kept d F0 s1"
  by (simp add: unmanaged_kept_def)

lemma resolve_safe_managed:
  assumes "resolve_safe_path resolve_path d n = Inr fp" and "''..'' \<notin> set d"
  shows "managed_file d fp"
  using resolve_safe_pathD [OF assms] by (auto simp: managed_file_def)

lemma delete_one_unmanaged:
  assumes "unmanaged_kept d F0 s" and "''..'' \<notin> set d"
  shows "unmanaged_kept d F0 (after (delete_one E d n s))"
proof (cases "resolve_safe_path resolve_path d n")
  case (Inr fp)
  have m: "managed_file d fp" by (rule resolve_safe_managed [OF Inr assms(2)])
  have del: "unmanaged_kept d F0 s'" if "unlink (env_io E) Unlink (cs_fs s) fp = Some F'"
      "uploaded_paths s' = uploaded_paths s" "\<And>q. read_file (cs_fs s') q = read_file F' q" for s' F'
    using assms(1) that(2,3) read_unlink [OF that(1)] m by (auto simp: unmanaged_kept_def)
  show ?thesis
    using Inr assms(1)
    by (auto simp: delete_one_def Let_def intro: del unmanaged_same split: sum.split option.split)
qed (simp add: delete_one_def assms(1))

lemma upload_one_unmanaged:
  assumes "unmanaged_kept d F0 s" and "''..'' \<notin> set d"
  shows "unmanaged_kept d F0 (after (upload_one E d repo c u s))"
proof -
  obtain f b where u: "u = (f, b)" by fastforce
  define n where "n = lstrip_char (CHR ''/'') f"
  show ?thesis
  proof (cases "resolve_safe_path resolve_path d n")
    case (Inr fp)
    have lstrip: "lstrip_char (CHR ''/'') n = n"
      unfolding n_def using lstrip_char_hd [of "CHR ''/''" f] by (intro lstrip_char_id)
    have fp: "fp = resolve_path (join_path d n)"
      using Inr lstrip by (auto simp: resolve_safe_path_def Let_def split: if_splits)
    note m = resolve_safe_managed [OF Inr assms(2)]
    show ?thesis
    proof (cases "remember_original_file (env_io E) (original_files s) n fp (cs_fs s)")
      case r: (Inr l)
      define s1 where "s1 = s\<lparr>original_files := l\<rparr>"
      have touch: "unmanaged_kept d F0 s'" if "touches fp n s1 s'" for s'
        using unmanaged_touches [OF assms(1) _ _ that m fp] unfolding s1_def by simp
      note pieces = touch [OF store_upload_touches] touch [OF upload_labels_touches]
        touch [OF upload_post_touches] touch [OF same_files_touches [OF same_files_simps(1)]]
      have labels: "unmanaged_kept d F0 (after (upload_labels E repo c fp ''labels.toml'' st ct s1))"
        if "n = ''labels.toml''" for st ct
        using pieces(2) that by simp
      show ?thesis
        using Inr r
        by (simp add: upload_one_def u n_def [symmetric] s1_def [symmetric] pieces labels split: sum.split option.split)
    qed (use Inr assms(1) in \<open>simp add: upload_one_def u n_def [symmetric]\<close>)
  qed (simp add: upload_one_def u n_def [symmetric] assms(1))
qed

lemma mutation_phase_unmanaged:
  assumes "mutation_phase E d repo m deleted c uploads (start_state F) = Inr (s', w)" and "''..'' \<notin> set d"
  shows "unmanaged_kept d F s'"
proof -
  obtain s1 s2 where s1: "run_steps (delete_one E d) deleted (start_state F) = Inr s1"
    and s2: "run_steps (upload_one E d repo c) uploads s1 = Inr s2"
    and n: "normalize_step E d m s2 = Inr (s', w)"
    using assms(1) by (auto simp: mutation_phase_def split: sum.splits)
  have "unmanaged_kept d F (start_state F)" by (simp add: unmanaged_kept_def start_state_def)
  then have "unmanaged_kept d F (after (run_steps (delete_one E d) deleted (start_state F)))"
    by (rule run_steps_after) (rule delete_one_unmanaged [OF _ assms(2)])
  then have "unmanaged_kept d F s1" by (simp add: s1)
  then have "unmanaged_kept d F (after (run_steps (upload_one E d repo c) uploads s1))"
    by (rule run_steps_after) (rule upload_one_unmanaged [OF _ assms(2)])
  then have u: "unmanaged_kept d F s2" by (simp add: s2)
  obtain r where r: "normalize_post_frontmatter (env_ext E) (env_io E) (now_text E) (uploaded_paths s2) m d
      (download_list s2) (cs_fs s2) = Inr r" "cs_fs s' = norm_fs r" "uploaded_paths s' = uploaded_paths s2"
    using n by (auto simp: normalize_step_def split: sum.splits)
  have "read_file (cs_fs s') q = read_file (cs_fs s2) q" if "\<not> managed_file d q" for q
  proof -
    have "q \<notin> norm_targets d (uploaded_paths s2)"
      using that u by (auto simp: norm_targets_def unmanaged_kept_def)
    from normalize_files_targets [OF this] r show ?thesis
      by (simp add: normalize_post_frontmatter_def split: sum.splits) (metis sum.simps(6) norm_state.select_convs(1))
  qed
  with u r(3) show ?thesis by (simp add: unmanaged_kept_def)
qed

lemma finish_commit_fs: "srv_fs (fst (finish_commit E u S s w)) = srv_fs S"
  by (auto simp: finish_commit_def Let_def manifest_phase_def cache_phase_def
      split: prod.splits option.splits call_result.splits)

text \<open>Two servers with the same files, manifest and repository.\<close>

definition same_content :: "'g server \<Rightarrow> 'g server \<Rightarrow> bool" where
  "same_content S S' \<longleftrightarrow> (\<forall>q. read_file (srv_fs S') q = read_file (srv_fs S) q) \<and>
     srv_manifest S' = srv_manifest S \<and> srv_repo S' = srv_repo S"

lemma roll_back_same_content:
  assumes "logged (srv_dir S) (srv_fs S) s" and "roll_back E S1 e (original_files s) (cs_fs s) = (S2, RolledBack e' [])"
    and "srv_dir S1 = srv_dir S" "srv_manifest S1 = srv_manifest S" "srv_repo S1 = srv_repo S"
  shows "same_content S S2"
proof -
  have "srv_manifest S2 = srv_manifest S1" "srv_repo S2 = srv_repo S1"
    using assms(2) by (auto simp: roll_back_def split: prod.splits)
  then show ?thesis
    using roll_back_restores [OF assms(1-3)] assms(4,5) by (simp add: same_content_def)
qed

lemma settle_commit_restores:
  assumes "case r of Inl (e, s) \<Rightarrow> logged (srv_dir S) (srv_fs S) s | Inr (s, w) \<Rightarrow> logged (srv_dir S) (srv_fs S) s"
    and "settle_commit E username S r = (S', RolledBack e [])"
  shows "same_content S S'"
proof (cases r)
  case (Inl x)
  obtain x1 s where x: "x = (x1, s)" by fastforce
  then obtain e1 where "roll_back E S e1 (original_files s) (cs_fs s) = (S', RolledBack e [])"
    using assms(2) Inl by (cases x1) (auto simp: settle_commit_def)
  moreover have "logged (srv_dir S) (srv_fs S) s" using assms(1) Inl x by simp
  ultimately show ?thesis using roll_back_same_content [of S s E S e1 S' e] by simp
next
  case r: (Inr x)
  obtain s w where x: "x = (s, w)" by fastforce
  define S1 where "S1 = S\<lparr>srv_fs := cs_fs s, srv_tracker := recompute (env_io E) (cs_fs s) (srv_tracker S)\<rparr>"
  show ?thesis
  proof (cases "check (srv_tracker S1) 0")
    case True
    then have "(S', RolledBack e []) = finish_commit E username S1 s w"
      using assms(2) r x by (simp add: settle_commit_def S1_def)
    then have False using finish_commit_outcome [of E username S1 s w e "[]"] by (metis snd_conv)
    then show ?thesis ..
  next
    case False
    obtain S2 o2 where b: "roll_back E S1 (Http (HTTPException 413 ''Storage limit reached''))
        (original_files s) (cs_fs s) = (S2, o2)" by fastforce
    with assms(2) r x False have S': "o2 = RolledBack e []"
      "S' = S2\<lparr>srv_tracker := recompute (env_io E) (srv_fs S2) (srv_tracker S2)\<rparr>"
      by (simp_all add: settle_commit_def S1_def)
    have "same_content S S2"
      using assms(1) r x by (intro roll_back_same_content [OF _ b [unfolded S'(1)]]) (simp_all add: S1_def)
    then show ?thesis by (simp add: S'(2) same_content_def)
  qed
qed

lemma settle_commit_kept:
  assumes "settle_commit E username S r = (S', outcome)" and "\<And>e failures. outcome \<noteq> RolledBack e failures"
  obtains s w where "r = Inr (s, w)" "srv_fs S' = cs_fs s"
proof (cases r)
  case (Inl x)
  then show thesis
    using assms by (cases x; cases "fst x") (auto simp: settle_commit_def roll_back_def split: prod.splits)
next
  case (Inr x)
  obtain s w where x: "x = (s, w)" by fastforce
  let ?S1 = "S\<lparr>srv_fs := cs_fs s, srv_tracker := recompute (env_io E) (cs_fs s) (srv_tracker S)\<rparr>"
  have "settle_commit E username S r = finish_commit E username ?S1 s w"
    using assms Inr x by (auto simp: settle_commit_def roll_back_def Let_def split: if_splits prod.splits)
  with assms(1) have "srv_fs S' = cs_fs s"
    using finish_commit_fs [of E username ?S1 s w] by simp
  with Inr x that show thesis by simp
qed

lemma finish_commit_manifest:
  assumes "finish_commit E username S s w = (S', Committed r)" and "manifest_update E = Returns ()"
  shows "srv_manifest S' = scan_content_files E (srv_dir S') (srv_fs S')"
  using assms
  by (auto simp: finish_commit_def Let_def manifest_phase_def cache_phase_def
      split: prod.splits option.splits call_result.splits)

lemma committed_manifest:
  assumes "sync_commit E username metadata_json upload_files S = (S', Committed r)"
    and "manifest_update E = Returns ()"
  shows "srv_manifest S' = scan_content_files E (srv_dir S') (srv_fs S')"
proof -
  obtain M where settle: "settle_commit E username S M = (S', Committed r)"
    using assms(1) by (auto simp: sync_commit_def split: sum.splits)
  obtain s w where M: "M = Inr (s, w)" using settle_commit_kept [OF settle] by blast
  define S1 where "S1 = S\<lparr>srv_fs := cs_fs s, srv_tracker := recompute (env_io E) (cs_fs s) (srv_tracker S)\<rparr>"
  have "finish_commit E username S1 s w = (S', Committed r)"
    using settle M by (auto simp: settle_commit_def S1_def roll_back_def Let_def split: if_splits prod.splits)
  then show ?thesis by (rule finish_commit_manifest [OF _ assms(2)])
qed

section \<open>A small server\<close>

text \<open>A small server with one asset, whose git answers nothing and whose externals are plain.\<close>

definition demo_env :: "pyval \<Rightarrow> unit sync_env" where
  "demo_env json = \<lparr>env_ext = plain_externals, env_io = (\<lambda>op p. False),
     env_git = (\<lambda>r args. (r, Ran 0 [] [])), json_loads = (\<lambda>s. Some json), sha256 = (\<lambda>b. b),
     mtime_of = (\<lambda>p. []), key_order = (\<lambda>b s c. []), now_text = ''now'',
     manifest_update = Returns (), reload_config = Returns (), rebuild_caches = (\<lambda>F. Returns [])\<rparr>"

definition demo_server :: "unit server" where
  "demo_server = \<lparr>srv_dir = [''c''],
     srv_fs = \<lparr>files = [([''c'', ''assets'', ''a''], ''old'')], dirs = [[''c''], [''c'', ''assets'']]\<rparr>,
     srv_manifest = [], srv_repo = (), srv_tracker = \<lparr>tracked_dir = [''c''], max_size = None, usage = 0\<rparr>\<rparr>"

text \<open>A request that deletes the asset under the given name and uploads a file that is not managed.\<close>

definition demo_commit :: "str \<Rightarrow> unit server \<times> commit_outcome" where
  "demo_commit name = sync_commit (demo_env (PDict [(''deleted_files'', PList [PStr name])])) ''u'' ''{}''
     [(Some ''notes.txt'', ''hi'')] demo_server"

lemma demo_commit_steps:
  "demo_commit name =
   (case mutation_phase (demo_env (PDict [(''deleted_files'', PList [PStr name])])) [''c''] () [] [name] None
      [(''notes.txt'', ''hi'')] (start_state (srv_fs demo_server)) of
     Inl (Http e, s) \<Rightarrow> roll_back (demo_env (PDict [(''deleted_files'', PList [PStr name])])) demo_server (Http e) (original_files s) (cs_fs s)
   | r \<Rightarrow> settle_commit (demo_env (PDict [(''deleted_files'', PList [PStr name])])) ''u'' demo_server r)"
proof -
  define M where "M = mutation_phase (demo_env (PDict [(''deleted_files'', PList [PStr name])])) [''c''] () [] [name] None
      [(''notes.txt'', ''hi'')] (start_state (srv_fs demo_server))"
  have "parse_metadata (demo_env (PDict [(''deleted_files'', PList [PStr name])])) ''{}'' = Inr ([name], None)"
    by (simp add: parse_metadata_def demo_env_def is_str_def mget_def)
  moreover have "read_uploads [(Some ''notes.txt'', ''hi'')] [] = Inr [(''notes.txt'', ''hi'')]"
    by (simp add: max_upload_size_def)
  ultimately have "demo_commit name =
      settle_commit (demo_env (PDict [(''deleted_files'', PList [PStr name])])) ''u'' demo_server M"
    by (simp add: demo_commit_def sync_commit_def M_def demo_server_def)
  then show ?thesis
    unfolding M_def [symmetric] by (auto simp: settle_commit_def split: sum.split exn.split)
qed



definition demo_end :: "str \<Rightarrow> commit_outcome \<times> bytes option \<times> bytes option" where
  "demo_end name = (let (S, r) = demo_commit name in
     (r, read_file (srv_fs S) [''c'', ''assets'', ''a''], read_file (srv_fs S) [''assets'', ''a'']))"

lemma demo_clean: "demo_end ''assets/a'' =
    (RolledBack (Http (HTTPException 403 ''Sync access to this path is not allowed'')) [], Some ''old'', None)"
  unfolding demo_end_def demo_commit_steps by code_simp

lemma demo_absolute: "demo_end ''/assets/a'' =
    (RolledBack (Http (HTTPException 403 ''Sync access to this path is not allowed'')) [], None, Some ''old'')"
  unfolding demo_end_def demo_commit_steps by code_simp

lemma demo_empty_commit:
  "\<exists>S' r. sync_commit (demo_env (PDict [])) ''u'' ''{}'' [] demo_server = (S', Committed r) \<and>
     srv_fs S' = srv_fs demo_server \<and> srv_dir S' = [''c'']"
  by (simp add: sync_commit_def parse_metadata_def demo_env_def mget_def settle_commit_def mutation_phase_def
      normalize_step_def normalize_post_frontmatter_def demo_server_def start_state_def check_def recompute_def
      finish_commit_def git_phase_def commit_all_def run_git_def run_result_of_def manifest_phase_def
      reload_phase_def cache_phase_def head_phase_def head_commit_def)

lemma demo_scan: "scan_content_files (demo_env (PDict [])) [''c''] (srv_fs demo_server) =
    [(''assets/a'', \<lparr>file_path = ''assets/a'', content_hash = ''old'', file_size = 3, file_mtime = []\<rparr>)]"
  unfolding demo_server_def demo_env_def by (simp, code_simp)

section \<open>Properties\<close>

text \<open>
  C3. A commit that fails before git leaves no trace: when the names of the request are clean
  relative paths and the rollback reports no failure, every file of the server reads as before the
  request, and the manifest and the repository are untouched.
\<close>

theorem failed_commit_restores_files:
  assumes "clean_request E metadata_json upload_files S"
    and "sync_commit E username metadata_json upload_files S = (S', RolledBack e [])"
  shows "(\<forall>q. read_file (srv_fs S') q = read_file (srv_fs S) q) \<and>
    srv_manifest S' = srv_manifest S \<and> srv_repo S' = srv_repo S"
proof (cases "parse_metadata E metadata_json")
  case (Inr dc)
  obtain deleted c where dc: "parse_metadata E metadata_json = Inr (deleted, c)"
    using Inr by (cases dc) simp
  show ?thesis
  proof (cases "read_uploads upload_files []")
    case up: (Inr uploads)
    have names: "''..'' \<notin> set (srv_dir S)" "list_all clean_name deleted"
      "list_all (\<lambda>u. clean_name (lstrip_char (CHR ''/'') (fst u))) uploads"
      using assms(1) read_uploads_keys [OF up] dc
      by (force simp: clean_request_def list_all_iff)+
    have "settle_commit E username S (mutation_phase E (srv_dir S) (srv_repo S) (srv_manifest S)
        deleted c uploads (start_state (srv_fs S))) = (S', RolledBack e [])"
      using assms(2) dc up by (simp add: sync_commit_def)
    from settle_commit_restores [OF mutation_phase_logged [OF names] this] show ?thesis
      by (simp add: same_content_def)
  qed (use assms(2) dc in \<open>simp add: sync_commit_def\<close>)
qed (use assms(2) in \<open>simp add: sync_commit_def\<close>)

theorem failed_commit_restores_files_witness:
  "snd (demo_commit ''assets/a'') =
     RolledBack (Http (HTTPException 403 ''Sync access to this path is not allowed'')) [] \<and>
   read_file (srv_fs (fst (demo_commit ''assets/a''))) [''c'', ''assets'', ''a''] = Some ''old''"
proof -
  let ?E = "demo_env (PDict [(''deleted_files'', PList [PStr ''assets/a''])])"
  have r: "snd (demo_commit ''assets/a'') =
      RolledBack (Http (HTTPException 403 ''Sync access to this path is not allowed'')) []"
    using demo_clean by (simp add: demo_end_def Let_def split: prod.splits)
  have "parse_metadata ?E ''{}'' = Inr ([''assets/a''], None)"
    by (simp add: parse_metadata_def demo_env_def is_str_def mget_def)
  moreover have "clean_name ''assets/a''" "clean_name (lstrip_char (CHR ''/'') ''notes.txt'')" by code_simp+
  ultimately have "clean_request ?E ''{}'' [(Some ''notes.txt'', ''hi'')] demo_server"
    by (simp add: clean_request_def demo_server_def)
  moreover have "sync_commit ?E ''u'' ''{}'' [(Some ''notes.txt'', ''hi'')] demo_server =
      (fst (demo_commit ''assets/a''), RolledBack (Http (HTTPException 403 ''Sync access to this path is not allowed'')) [])"
    using r by (simp add: demo_commit_def prod_eq_iff)
  ultimately have "\<forall>q. read_file (srv_fs (fst (demo_commit ''assets/a''))) q = read_file (srv_fs demo_server) q"
    by (blast dest: failed_commit_restores_files)
  with r show ?thesis by (simp add: demo_server_def read_file_def)
qed


text \<open>
  C6. Containment: whatever names a request holds, a commit that is not rolled back leaves every
  file outside the managed surface of the content directory as it was.
\<close>

theorem commit_changes_only_managed_files:
  assumes "sync_commit E username metadata_json upload_files S = (S', outcome)"
    and "\<And>e failures. outcome \<noteq> RolledBack e failures" and "''..'' \<notin> set (srv_dir S)"
    and "\<not> managed_file (srv_dir S) q"
  shows "read_file (srv_fs S') q = read_file (srv_fs S) q"
proof -
  obtain deleted c uploads where req: "parse_metadata E metadata_json = Inr (deleted, c)"
    "read_uploads upload_files [] = Inr uploads"
    using assms(1) assms(2) [of _ "[]"]
    by (cases "parse_metadata E metadata_json"; cases "read_uploads upload_files []") (auto simp: sync_commit_def)
  define r where "r = mutation_phase E (srv_dir S) (srv_repo S) (srv_manifest S) deleted c uploads
    (start_state (srv_fs S))"
  have settle: "settle_commit E username S r = (S', outcome)"
    using assms(1) req by (simp add: sync_commit_def r_def)
  obtain s w where s: "r = Inr (s, w)" "srv_fs S' = cs_fs s"
    using settle_commit_kept [OF settle assms(2)] .
  have "unmanaged_kept (srv_dir S) (srv_fs S) s"
    by (rule mutation_phase_unmanaged [OF s(1) [unfolded r_def] assms(3)])
  with assms(4) s(2) show ?thesis by (simp add: unmanaged_kept_def)
qed

theorem commit_changes_only_managed_files_witness:
  "read_file (srv_fs (fst (sync_commit (demo_env (PDict [])) ''u'' ''{}'' [] demo_server))) [''etc''] = None"
proof -
  obtain S' outcome where c: "sync_commit (demo_env (PDict [])) ''u'' ''{}'' [] demo_server = (S', outcome)"
    by fastforce
  have "snd (sync_commit (demo_env (PDict [])) ''u'' ''{}'' [] demo_server) \<noteq> RolledBack e fl" for e fl
    by (simp add: sync_commit_def parse_metadata_def demo_env_def mget_def settle_commit_def mutation_phase_def
        normalize_step_def normalize_post_frontmatter_def demo_server_def start_state_def check_def recompute_def
        finish_commit_outcome)
  with c have "outcome \<noteq> RolledBack e fl" for e fl by (metis snd_conv)
  moreover have "''..'' \<notin> set (srv_dir demo_server)" "\<not> managed_file (srv_dir demo_server) [''etc'']"
    by (auto simp: demo_server_def managed_file_def)
  ultimately have "read_file (srv_fs S') [''etc''] = read_file (srv_fs demo_server) [''etc'']"
    using commit_changes_only_managed_files [OF c] by blast
  then show ?thesis using c by (simp add: demo_server_def read_file_def)
qed

text \<open>
  C20. Without a merge base the labels of the client replace those of the server: no conflict and no
  warning is recorded, and the server's version is gone.
\<close>

theorem labels_without_base_take_client:
  assumes "read_file (cs_fs s) fp = Some old" and "write_file (env_io E) WriteFile (cs_fs s) fp client_text = Some F'"
    and "toml_labels (env_ext E) server_text \<noteq> None"
  shows "upload_labels E repo None fp ''labels.toml'' server_text client_text s =
    Inr (s\<lparr>cs_fs := F', download_list := download_list s @ [''labels.toml''],
      uploaded_paths := uploaded_paths s @ [''labels.toml'']\<rparr>) \<and> read_file F' fp = Some client_text"
  using assms(2,3) read_write_file [OF assms(2), of fp]
  by (auto simp: upload_labels_def get_base_content_def warn_if_def merge_labels_toml_def store_merged_def
      split: option.splits)

theorem labels_without_base_take_client_witness:
  "\<exists>s. upload_labels (demo_env PNone) () None [''c'', ''assets'', ''a''] ''labels.toml'' ''old'' ''new''
      (start_state (srv_fs demo_server)) = Inr s \<and>
    read_file (cs_fs s) [''c'', ''assets'', ''a''] = Some ''new'' \<and> commit_conflicts s = []"
proof -
  let ?s = "start_state (srv_fs demo_server)" and ?p = "[''c'', ''assets'', ''a'']"
  obtain F' where F': "write_file (env_io (demo_env PNone)) WriteFile (cs_fs ?s) ?p ''new'' = Some F'"
    by (simp add: write_file_def demo_env_def start_state_def demo_server_def is_dir_def)
  have "read_file (cs_fs ?s) ?p = Some ''old''" "toml_labels (env_ext (demo_env PNone)) ''old'' \<noteq> None"
    by (simp_all add: start_state_def demo_server_def read_file_def demo_env_def plain_externals_def)
  from labels_without_base_take_client [OF this(1) F' this(2)] show ?thesis
    by (auto simp: start_state_def)
qed



end
