(* ===== verification/CommitEffect.thy ===== *)
theory CommitEffect
  imports SyncCommit
begin

text \<open>
  What a finished sync commit did to the files, as a contract the client can rely on
  (\<open>commit_effect\<close>): the deleted files are gone, every upload is stored as sent or named for
  download, and nothing else changed. The lemmas follow the phases of \<^verbatim>\<open>_sync_commit_inner\<close>.
\<close>

interpretation server_scan: content_scan "scan_content_files E d" "content_at d" "sha256 E"
    "\<lambda>F. proper_fs d F \<and> proper d \<and> (\<forall>p. \<not> env_io E ScanFile p)" for E d
  by unfold_locales (simp add: scan_content_files_def scan_tree_hash)

definition commit_effect :: "path \<Rightarrow> str list \<Rightarrow> bytes dict \<Rightarrow> fs \<Rightarrow> fs \<Rightarrow> str list \<Rightarrow> str list \<Rightarrow> bool" where
  "commit_effect d deleted uploads F F' downloads conflicted \<longleftrightarrow>
     (\<forall>q. q \<notin> join_path d ` (set deleted \<union> set (dkeys uploads)) \<longrightarrow> read_file F' q = read_file F q) \<and>
     (\<forall>n\<in>set deleted. read_file F' (join_path d n) = None) \<and>
     (\<forall>(n, b)\<in>set uploads. n \<in> set downloads \<or> read_file F' (join_path d n) = Some b) \<and>
     set downloads \<subseteq> set (dkeys uploads) \<and> set conflicted \<subseteq> set (dkeys uploads)"

section \<open>Deletions\<close>

lemma delete_one_effect:
  assumes "delete_one E d n s = Inr s'" and "''..'' \<notin> set d" and "clean_name n"
    and "\<And>p. \<not> env_io E Unlink p"
  shows "read_file (cs_fs s') q = (if q = join_path d n then None else read_file (cs_fs s) q)"
    "download_list s' = download_list s" "uploaded_paths s' = uploaded_paths s"
    "commit_conflicts s' = commit_conflicts s"
proof -
  obtain fp where safe: "resolve_safe_path resolve_path d n = Inr fp"
    using assms(1) by (auto simp: delete_one_def split: sum.splits)
  then have fp: "fp = join_path d n" using resolve_safe_path_clean assms(2,3) by blast
  have "(\<forall>q. read_file (cs_fs s') q = (if q = join_path d n then None else read_file (cs_fs s) q)) \<and>
    download_list s' = download_list s \<and> uploaded_paths s' = uploaded_paths s \<and>
    commit_conflicts s' = commit_conflicts s"
  proof (cases "is_file (cs_fs s) fp")
    case False
    then have "s' = s" using assms(1) safe by (simp add: delete_one_def)
    with False fp show ?thesis by (simp add: is_file_def)
  next
    case True
    then obtain F' where F': "unlink (env_io E) Unlink (cs_fs s) fp = Some F'"
      using assms(4) by (auto simp: unlink_def)
    obtain l where "remember_original_file (env_io E) (original_files s) n fp (cs_fs s) = Inr l"
      using assms(1) safe True by (auto simp: delete_one_def path_exists_def split: sum.splits)
    with assms(1) safe True F' have "s' = s\<lparr>original_files := l,
        cs_fs := prune_empty_directories (env_io E) F' (butlast fp) d,
        successful_deletions := Suc (successful_deletions s)\<rparr>"
      by (simp add: delete_one_def path_exists_def)
    then show ?thesis using read_unlink [OF F'] fp by simp
  qed
  then show "read_file (cs_fs s') q = (if q = join_path d n then None else read_file (cs_fs s) q)"
    "download_list s' = download_list s" "uploaded_paths s' = uploaded_paths s"
    "commit_conflicts s' = commit_conflicts s"
    by blast+
qed

lemma deletions_effect:
  assumes "run_steps (delete_one E d) ns s = Inr s'" and "''..'' \<notin> set d"
    and "list_all clean_name ns" and "\<And>p. \<not> env_io E Unlink p"
  shows "read_file (cs_fs s') q = (if q \<in> join_path d ` set ns then None else read_file (cs_fs s) q) \<and>
    download_list s' = download_list s \<and> uploaded_paths s' = uploaded_paths s \<and>
    commit_conflicts s' = commit_conflicts s"
  using assms(1,3)
proof (induction ns arbitrary: s)
  case (Cons n ns)
  then obtain s1 where s1: "delete_one E d n s = Inr s1" "run_steps (delete_one E d) ns s1 = Inr s'"
    by (auto split: sum.splits)
  have "clean_name n" using Cons.prems by simp
  from delete_one_effect [OF s1(1) assms(2) this assms(4)] Cons.IH [OF s1(2)] Cons.prems(2)
  show ?case by auto
qed simp

section \<open>Uploads\<close>

definition conflict_names :: "commit_state \<Rightarrow> str set" where
  "conflict_names s = info_path ` set (commit_conflicts s)"

lemma conflict_names_update [simp]:
  "conflict_names (s\<lparr>cs_fs := F\<rparr>) = conflict_names s"
  "conflict_names (s\<lparr>uploaded_paths := ns\<rparr>) = conflict_names s"
  "conflict_names (s\<lparr>download_list := ns\<rparr>) = conflict_names s"
  "conflict_names (s\<lparr>original_files := l\<rparr>) = conflict_names s"
  by (simp_all add: conflict_names_def)

text \<open>One upload: only its file changes, and it holds the upload unless it is named for download.\<close>

definition stored :: "path \<Rightarrow> str \<Rightarrow> bytes \<Rightarrow> commit_state \<Rightarrow> commit_state \<Rightarrow> bool" where
  "stored fp n b s s' \<longleftrightarrow> (\<forall>q. q \<noteq> fp \<longrightarrow> read_file (cs_fs s') q = read_file (cs_fs s) q) \<and>
     uploaded_paths s' = uploaded_paths s @ [n] \<and>
     conflict_names s' \<subseteq> insert n (conflict_names s) \<and>
     (download_list s' = download_list s @ [n] \<or>
      download_list s' = download_list s \<and> read_file (cs_fs s') fp = Some b)"

lemma store_upload_stored: "store_upload E fp b n s = Inr s' \<Longrightarrow> stored fp n b s s'"
  by (auto simp: store_upload_def stored_def read_write_file split: option.splits)

lemma store_merged_stored:
  assumes "store_merged E fp t n s1 = Inr s'" and "same_files s s1" and "download_list s1 = download_list s"
    and "conflict_names s1 \<subseteq> insert n (conflict_names s)"
  shows "stored fp n b s s'"
  using assms by (auto simp: store_merged_def stored_def same_files_def read_write_file split: option.splits)

lemma download_list_simps [simp]:
  "download_list (commit_warn w s) = download_list s" "download_list (warn_if c w s) = download_list s"
  "download_list (add_info n b l s) = download_list s"
  "commit_conflicts (commit_warn w s) = commit_conflicts s" "commit_conflicts (warn_if c w s) = commit_conflicts s"
  "conflict_names (commit_warn w s) = conflict_names s" "conflict_names (warn_if c w s) = conflict_names s"
  "conflict_names (add_info n b l s) = insert n (conflict_names s)"
  by (simp_all add: commit_warn_def warn_if_def add_info_def conflict_names_def)

lemma upload_labels_stored:
  assumes "upload_labels E repo c fp n st ct s = Inr s'"
  shows "stored fp n b s s'"
proof -
  obtain base e where base: "get_base_content E repo c n = (base, e)" by fastforce
  then obtain r where r: "merge_labels_toml (env_ext E) base st ct = Some r"
    using assms by (auto simp: upload_labels_def Let_def split: option.splits)
  from assms show ?thesis
    unfolding upload_labels_def base Let_def prod.case r option.case
    by (rule store_merged_stored) auto
qed

lemma upload_post_stored:
  assumes "upload_post E repo c fp n st ct s = Inr s'"
  shows "stored fp n b s s'"
proof -
  obtain base e where base: "get_base_content E repo c n = (base, e)" by fastforce
  then obtain r where r: "merge_post_file (env_ext E) (key_order E base st ct) base st ct = Some r"
    using assms by (auto simp: upload_post_def Let_def split: option.splits)
  from assms show ?thesis
    unfolding upload_post_def base Let_def prod.case r option.case
    by (rule store_merged_stored) auto
qed

lemma decode_utf8_same: "decode_utf8 b = Some t \<Longrightarrow> t = b"
  by (auto simp: decode_utf8_def split: if_splits)

lemma upload_one_stored:
  assumes "upload_one E d repo c (n, b) s = Inr s'" and "''..'' \<notin> set d" and "clean_name n"
  shows "stored (join_path d n) n b s s'"
proof -
  have n: "lstrip_char (CHR ''/'') n = n" by (rule lstrip_clean [OF assms(3)])
  obtain fp where safe: "resolve_safe_path resolve_path d n = Inr fp"
    using assms(1) by (auto simp: upload_one_def n split: sum.splits)
  then have fp: "fp = join_path d n" using resolve_safe_path_clean assms(2,3) by blast
  obtain l where l: "remember_original_file (env_io E) (original_files s) n fp (cs_fs s) = Inr l"
    using assms(1) safe by (auto simp: upload_one_def n split: sum.splits)
  define s1 where "s1 = s\<lparr>original_files := l\<rparr>"
  obtain sc where sc: "read_server_content (env_io E) (cs_fs s1) fp = Inr sc"
    using assms(1) safe l by (auto simp: upload_one_def n s1_def Let_def split: sum.splits)
  have "stored fp n b s1 s'"
  proof (cases "decode_utf8 b")
    case None
    with assms(1) safe l sc show ?thesis
      by (intro store_upload_stored) (simp add: upload_one_def n s1_def)
  next
    case (Some t)
    then have t: "t = b" by (rule decode_utf8_same)
    from assms(1) safe l sc Some have "(\<exists>st. upload_labels E repo c fp n st b s1 = Inr s') \<or>
        (\<exists>st. upload_post E repo c fp n st b s1 = Inr s') \<or> store_upload E fp b n s1 = Inr s'"
      by (cases sc) (auto simp: upload_one_def n s1_def [symmetric] t split: if_splits)
    then show ?thesis
      by (elim disjE exE) (erule upload_labels_stored, erule upload_post_stored, erule store_upload_stored)
  qed
  then show ?thesis by (simp add: stored_def s1_def fp)
qed

lemma uploads_effect:
  assumes "run_steps (upload_one E d repo c) us s = Inr s'" and "''..'' \<notin> set d"
    and "list_all clean_name (dkeys us)" and "distinct (dkeys us)"
  shows "(\<forall>q. q \<notin> join_path d ` set (dkeys us) \<longrightarrow> read_file (cs_fs s') q = read_file (cs_fs s) q) \<and>
    uploaded_paths s' = uploaded_paths s @ dkeys us \<and>
    conflict_names s' \<subseteq> conflict_names s \<union> set (dkeys us) \<and>
    set (download_list s') \<subseteq> set (download_list s) \<union> set (dkeys us) \<and>
    set (download_list s) \<subseteq> set (download_list s') \<and>
    (\<forall>(n, b)\<in>set us. n \<in> set (download_list s') \<or> read_file (cs_fs s') (join_path d n) = Some b)"
  using assms(1,3,4)
proof (induction us arbitrary: s)
  case (Cons u us)
  obtain n b where u: "u = (n, b)" by fastforce
  with Cons.prems obtain s1 where s1: "upload_one E d repo c (n, b) s = Inr s1"
    "run_steps (upload_one E d repo c) us s1 = Inr s'"
    by (auto split: sum.splits)
  have n: "clean_name n" "list_all clean_name (dkeys us)" "distinct (dkeys us)" "n \<notin> set (dkeys us)"
    using Cons.prems u by auto
  have st: "stored (join_path d n) n b s s1" by (rule upload_one_stored [OF s1(1) assms(2) n(1)])
  have "join_path d n \<notin> join_path d ` set (dkeys us)"
    using n join_clean_inj [of n _ d] by (auto simp: list_all_iff)
  with st Cons.IH [OF s1(2) n(2,3)] show ?case
    by (auto simp: u stored_def)
qed simp

section \<open>Normalisation and the whole phase\<close>

lemma remember_downloads:
  "set (fold (\<lambda>fp l. if fp \<in> set l then l else l @ [fp]) ms l) = set l \<union> set ms"
  by (induction ms arbitrary: l) auto

lemma normalize_step_effect:
  assumes "normalize_step E d m s = Inr (s', w)"
  shows "commit_conflicts s' = commit_conflicts s \<and>
    (\<exists>ms. set (download_list s') = set (download_list s) \<union> set ms \<and> set ms \<subseteq> set (uploaded_paths s) \<and>
    (\<forall>q. q \<notin> (\<lambda>p. resolve_path (join_path d p)) ` set ms \<longrightarrow> read_file (cs_fs s') q = read_file (cs_fs s) q))"
proof -
  obtain r where r: "normalize_post_frontmatter (env_ext E) (env_io E) (now_text E) (uploaded_paths s) m d
      (download_list s) (cs_fs s) = Inr r"
    "cs_fs s' = norm_fs r" "set (download_list s') = set (download_list s) \<union> set (modified_files r)" "commit_conflicts s' = commit_conflicts s"
    using assms by (auto simp: normalize_step_def remember_downloads split: sum.splits)
  from normalize_files_frame [OF r(1) [unfolded normalize_post_frontmatter_def]] r(2,3)
  show ?thesis using r(4) by (intro conjI exI [of _ "modified_files r"]) auto
qed

lemma run_steps_names:
  "run_steps step xs s = Inr s' \<Longrightarrow> x \<in> set xs \<Longrightarrow> \<exists>s1 s2. step x s1 = Inr s2"
  by (induction xs arbitrary: s) (auto split: sum.splits)

lemma uploaded_resolves:
  assumes "run_steps (upload_one E d repo c) us s = Inr s'" and "''..'' \<notin> set d"
    and "list_all clean_name (dkeys us)" and "p \<in> set (dkeys us)"
  shows "resolve_path (join_path d p) = join_path d p"
proof -
  have cl: "clean_name p" using assms(3,4) by (auto simp: list_all_iff)
  from assms(4) obtain b where "(p, b) \<in> set us" by auto
  from run_steps_names [OF assms(1) this] obtain t t' where "upload_one E d repo c (p, b) t = Inr t'" by blast
  then obtain fp where "resolve_safe_path resolve_path d p = Inr fp"
    by (auto simp: upload_one_def lstrip_clean [OF cl] split: sum.splits)
  from resolve_safe_no_parent [OF this assms(2) cl] show ?thesis by (rule resolve_no_parent)
qed

text \<open>The three phases put together, with the names of the uploads as \<open>K\<close>.\<close>

lemma phases_effect:
  assumes del: "\<And>q. read_file F1 q = (if q \<in> join_path d ` D then None else read_file F q)"
    and up: "\<And>q. q \<notin> join_path d ` K \<Longrightarrow> read_file F2 q = read_file F1 q"
    and nm: "\<And>q. q \<notin> join_path d ` M \<Longrightarrow> read_file F3 q = read_file F2 q"
    and M: "M \<subseteq> K" and names: "\<forall>n\<in>D \<union> K. clean_name n" and disj: "D \<inter> K = {}"
  shows "q \<notin> join_path d ` (D \<union> K) \<Longrightarrow> read_file F3 q = read_file F q"
    and "n \<in> D \<Longrightarrow> read_file F3 (join_path d n) = None"
    and "n \<in> K - M \<Longrightarrow> read_file F3 (join_path d n) = read_file F2 (join_path d n)"
proof -
  show "read_file F3 q = read_file F q" if "q \<notin> join_path d ` (D \<union> K)"
    using that del up nm M by (metis image_Un image_mono in_mono UnCI)
  have mem: "join_path d n \<in> join_path d ` A \<longleftrightarrow> n \<in> A" if "n \<in> D \<union> K" "A \<subseteq> D \<union> K" for n A
    using that names by (intro join_clean_mem) auto
  show "read_file F3 (join_path d n) = None" if "n \<in> D"
  proof -
    have "n \<notin> K" "n \<notin> M" "M \<subseteq> D \<union> K" using that disj M by auto
    then have "join_path d n \<notin> join_path d ` K" "join_path d n \<notin> join_path d ` M"
      using that mem by auto
    with that show ?thesis using del up nm by simp
  qed
  show "read_file F3 (join_path d n) = read_file F2 (join_path d n)" if "n \<in> K - M"
    using that nm [of "join_path d n"] mem [of n M] M by blast
qed

lemma mutation_phase_effect:
  assumes "mutation_phase E d repo m deleted c uploads (start_state F) = Inr (s', w)"
    and "''..'' \<notin> set d" and "list_all clean_name deleted" and "list_all clean_name (dkeys uploads)"
    and "distinct (dkeys uploads)" and "set deleted \<inter> set (dkeys uploads) = {}"
    and "\<And>p. \<not> env_io E Unlink p"
  shows "commit_effect d deleted uploads F (cs_fs s') (download_list s') (map info_path (commit_conflicts s'))"
proof -
  obtain s1 s2 where s1: "run_steps (delete_one E d) deleted (start_state F) = Inr s1"
    and s2: "run_steps (upload_one E d repo c) uploads s1 = Inr s2"
    and n: "normalize_step E d m s2 = Inr (s', w)"
    using assms(1) by (auto simp: mutation_phase_def split: sum.splits)
  define K where "K = set (dkeys uploads)"
  have del: "read_file (cs_fs s1) q = (if q \<in> join_path d ` set deleted then None else read_file F q)"
    "download_list s1 = []" "uploaded_paths s1 = []" "commit_conflicts s1 = []" for q
    using deletions_effect [OF s1 assms(2,3,7)] by (simp_all add: start_state_def)
  note up = uploads_effect [OF s2 assms(2,4,5), folded K_def]
  obtain ms where ms: "set (download_list s') = set (download_list s2) \<union> set ms" "set ms \<subseteq> K"
    "\<And>q. q \<notin> (\<lambda>p. resolve_path (join_path d p)) ` set ms \<Longrightarrow> read_file (cs_fs s') q = read_file (cs_fs s2) q"
    using normalize_step_effect [OF n] up del K_def by (metis append_Nil)
  have "(\<lambda>p. resolve_path (join_path d p)) ` set ms = join_path d ` set ms"
    using uploaded_resolves [OF s2 assms(2,4), folded K_def] ms(2) by (intro image_cong) auto
  with ms(3) have nm: "\<And>q. q \<notin> join_path d ` set ms \<Longrightarrow> read_file (cs_fs s') q = read_file (cs_fs s2) q"
    by simp
  have names: "\<forall>n\<in>set deleted \<union> K. clean_name n" "set deleted \<inter> K = {}"
    using assms(3,4,6) unfolding K_def list_all_iff by blast+
  note all = phases_effect [OF del(1) up [THEN conjunct1, rule_format] nm ms(2) names]
  have "case x of (n, b) \<Rightarrow> n \<in> set (download_list s') \<or> read_file (cs_fs s') (join_path d n) = Some b"
    if x: "x \<in> set uploads" for x
  proof -
    obtain p b where p: "x = (p, b)" by fastforce
    then have "p \<in> K" using x K_def by force
    moreover have "p \<in> set (download_list s2) \<or> read_file (cs_fs s2) (join_path d p) = Some b"
      using up x p by fastforce
    ultimately show ?thesis using all(3) [of p] ms(1) p by auto
  qed
  moreover have "set (download_list s') \<subseteq> K" using ms(1,2) up del(2) by auto
  moreover have "set (map info_path (commit_conflicts s')) \<subseteq> K"
    using normalize_step_effect [OF n] up del(4) by (auto simp: conflict_names_def)
  ultimately show ?thesis
    unfolding commit_effect_def K_def [symmetric] using all(1,2) by blast
qed

lemma finish_commit_downloads:
  "finish_commit E u S s w = (S', Committed r) \<Longrightarrow>
   resp_to_download r = download_list s \<and> resp_conflicts r = commit_conflicts s"
  by (auto simp: finish_commit_def Let_def split: prod.splits option.splits)

lemma finish_commit_succeeds:
  assumes "manifest_update E = Returns ()" and "reload_config E = Returns ()" and "\<And>F. rebuild_caches E F = Returns ws"
  shows "\<exists>S' r. finish_commit E u S s w = (S', Committed r)"
  using assms
  by (auto simp: finish_commit_def manifest_phase_def reload_phase_def cache_phase_def Let_def split: prod.split)

lemma settle_commit_committed:
  assumes "settle_commit E username S r = (S', Committed resp)"
  obtains s w where "r = Inr (s, w)" "srv_fs S' = cs_fs s" "resp_to_download resp = download_list s"
    "resp_conflicts resp = commit_conflicts s"
proof -
  obtain s w where s: "r = Inr (s, w)" "srv_fs S' = cs_fs s"
    using settle_commit_kept [OF assms] by blast
  obtain S1 where "finish_commit E username S1 s w = (S', Committed resp)"
    using assms s(1) by (auto simp: settle_commit_def roll_back_def Let_def split: if_splits prod.splits)
  then have "resp_to_download resp = download_list s \<and> resp_conflicts resp = commit_conflicts s"
    by (rule finish_commit_downloads)
  with s that show thesis by blast
qed

text \<open>A request to the small server that goes through.\<close>

lemma demo_finishes:
  assumes "parse_metadata (demo_env json) meta = Inr (deleted, c)" and "read_uploads ups [] = Inr uploads"
    and "mutation_phase (demo_env json) (srv_dir S) (srv_repo S) (srv_manifest S) deleted c uploads
      (start_state (srv_fs S)) = Inr (s, w)"
    and "max_size (srv_tracker S) = None"
  shows "\<exists>S' r. sync_commit (demo_env json) u meta ups S = (S', Committed r)"
  using assms finish_commit_succeeds [of "demo_env json" "[]"]
  by (simp add: sync_commit_def settle_commit_def check_def recompute_def demo_env_def)

lemma demo_mutation:
  "\<exists>s w. mutation_phase (demo_env (PDict [(''deleted_files'', PList [PStr ''assets/a''])])) [''c''] () []
     [''assets/a''] None [(''assets/b'', ''hi'')] (start_state (srv_fs demo_server)) = Inr (s, w)"
proof -
  have "(case mutation_phase (demo_env (PDict [(''deleted_files'', PList [PStr ''assets/a''])])) [''c''] () []
     [''assets/a''] None [(''assets/b'', ''hi'')] (start_state (srv_fs demo_server)) of Inl _ \<Rightarrow> False | Inr _ \<Rightarrow> True)"
    by code_simp
  then show ?thesis by (auto split: sum.splits)
qed

lemma commit_contract:
  assumes "sync_commit E username metadata_json upload_files S = (S', Committed r)"
    and "parse_metadata E metadata_json = Inr (deleted, c)"
    and "read_uploads upload_files [] = Inr uploads"
    and "''..'' \<notin> set (srv_dir S)" and "list_all clean_name (deleted @ dkeys uploads)"
    and "distinct (dkeys uploads)" and "set deleted \<inter> set (dkeys uploads) = {}"
    and "\<And>p. \<not> env_io E Unlink p"
  shows "commit_effect (srv_dir S) deleted uploads (srv_fs S) (srv_fs S') (resp_to_download r)
    (map info_path (resp_conflicts r))"
proof -
  define M where "M = mutation_phase E (srv_dir S) (srv_repo S) (srv_manifest S) deleted c uploads
    (start_state (srv_fs S))"
  have settle: "settle_commit E username S M = (S', Committed r)"
    using assms(1-3) by (simp add: sync_commit_def M_def)
  obtain s w where s: "M = Inr (s, w)" "srv_fs S' = cs_fs s" "resp_to_download r = download_list s"
    "resp_conflicts r = commit_conflicts s"
    using settle_commit_committed [OF settle] .
  have "commit_effect (srv_dir S) deleted uploads (srv_fs S) (cs_fs s) (download_list s)
      (map info_path (commit_conflicts s))"
    using assms(5) by (intro mutation_phase_effect [OF s(1) [unfolded M_def] assms(4) _ _ assms(6-8)]) auto
  then show ?thesis by (simp add: s)
qed

section \<open>Properties\<close>



end
