(* ===== verification/SyncClient.thy ===== *)
theory SyncClient
  imports TreeScan
begin

text \<open>
  The command line client, \<^verbatim>\<open>cli/agblogger_cli/sync_client.py\<close>: the local tree, the plan helpers, one
  sync run. The server is reached through two calls, the commit request and the download of a file;
  they are arguments, so the client is modelled for any server. What the client prints is not
  modelled, except that every path it skips or fails on is collected in \<open>problems\<close>.
\<close>

section \<open>Local state\<close>

text \<open>The client's directory, its configuration file (\<open>None\<close>: unreadable) and its manifest file.\<close>

record client =
  cl_dir :: path
  cl_fs :: fs
  cl_config :: "str dict option"
  cl_manifest :: manifest

record client_env =
  cl_io :: io_faults
  cl_sha :: "bytes \<Rightarrow> str"
  cl_mtime :: "path \<Rightarrow> str"
  cl_time :: str

text \<open>\<open>scan_local_files\<close>: a file that cannot be read raises.\<close>

definition scan_local_files :: "client_env \<Rightarrow> path \<Rightarrow> fs \<Rightarrow> manifest option" where
  "scan_local_files V content_dir F =
     (if list_ex (\<lambda>p. scanned content_dir p \<and> cl_io V ScanFile p) (all_files F) then None
      else Some (scan_tree (\<lambda>p. False) (cl_sha V) (cl_mtime V) content_dir F))"

definition is_safe_local_path :: "path \<Rightarrow> str \<Rightarrow> path option" where
  "is_safe_local_path content_dir name =
     (let local_path = resolve_path (join_path content_dir name) in
      if \<not> prefix (resolve_path content_dir) local_path then None else Some local_path)"

text \<open>\<open>_prune_empty_parents\<close> is the loop of \<open>_prune_empty_directories\<close>.\<close>

definition prune_empty_parents :: "io_faults \<Rightarrow> fs \<Rightarrow> path \<Rightarrow> path \<Rightarrow> fs" where
  "prune_empty_parents io F start stop_at = prune_empty_directories io F start stop_at"

definition get_last_sync_commit :: "client \<Rightarrow> str option" where
  "get_last_sync_commit C = (case cl_config C of None \<Rightarrow> None | Some d \<Rightarrow> dget d ''last_sync_commit'')"

definition save_commit_hash :: "client_env \<Rightarrow> str option \<Rightarrow> client \<Rightarrow> client" where
  "save_commit_hash V h C = (case h of
     None \<Rightarrow> C
   | Some h \<Rightarrow> (case cl_config C of
       None \<Rightarrow> C
     | Some d \<Rightarrow> if cl_io V ConfigWrite (cl_dir C) then C
         else C\<lparr>cl_config := Some (dset ''last_sync_commit'' h d)\<rparr>))"

section \<open>Plans\<close>

definition has_pending_changes :: "sync_plan \<Rightarrow> bool" where
  "has_pending_changes plan \<longleftrightarrow>
     to_upload plan \<noteq> [] \<or> to_download plan \<noteq> [] \<or> to_delete_local plan \<noteq> [] \<or>
     to_delete_remote plan \<noteq> [] \<or> conflicts plan \<noteq> []"

definition format_plan_summary :: "sync_plan \<Rightarrow> str" where
  "format_plan_summary plan = join_with [CHR 0x0A]
     (map (\<lambda>f. ''  + '' @ f @ '' (upload)'') (to_upload plan) @
      map (\<lambda>f. ''  < '' @ f @ '' (download)'') (to_download plan) @
      map (\<lambda>f. ''  - '' @ f @ '' (delete local)'') (to_delete_local plan) @
      map (\<lambda>f. ''  - '' @ f @ '' (delete remote)'') (to_delete_remote plan) @
      map (\<lambda>c. ''  ~ '' @ change_path c @ '' (both modified)'') (conflicts plan))"

definition format_conflict_details :: "bool \<Rightarrow> str list \<Rightarrow> str" where
  "format_conflict_details conflicted field_conflicts =
     (let user_fields = filter (\<lambda>f. f \<noteq> ''_no_base'' \<and> f \<noteq> ''_parse_error'') field_conflicts;
          details = (if conflicted then [''body''] else []) @
            concat (map (\<lambda>f. if f = ''_no_base'' then [''no common base'']
              else if f = ''_parse_error'' then [''parse error''] else []) field_conflicts) @
            (if user_fields \<noteq> [] then [''fields: '' @ join_with '', '' user_fields] else [])
      in if join_with '', '' details = [] then ''unknown'' else join_with '', '' details)"

section \<open>The server as the client sees it\<close>

record commit_data =
  data_conflicts :: "str list"
  data_to_download :: "str list"
  data_commit_hash :: "str option"

text \<open>Replies: the parsed body, an HTTP error status, or a failure of the transport.\<close>

datatype commit_reply = CommitReply commit_data | CommitError nat | CommitTransport
datatype file_reply = FileReply bytes | FileError nat | FileTransport

record 's remote =
  post_commit :: "str list \<Rightarrow> str option \<Rightarrow> (str \<times> bytes) list \<Rightarrow> 's \<Rightarrow> 's \<times> commit_reply"
  get_file :: "str \<Rightarrow> 's \<Rightarrow> 's \<times> file_reply"

section \<open>Downloads\<close>

text \<open>\<open>_download_file\<close>: the client's files, the server, and whether it succeeded.\<close>

definition download_file ::
  "client_env \<Rightarrow> 's remote \<Rightarrow> path \<Rightarrow> str \<Rightarrow> fs \<Rightarrow> 's \<Rightarrow> (fs \<times> 's) \<times> bool" where
  "download_file V R content_dir name F srv =
     (case is_safe_local_path content_dir name of
        None \<Rightarrow> ((F, srv), False)
      | Some local_path \<Rightarrow>
     (case get_file R name srv of
        (srv', FileReply b) \<Rightarrow>
          (case mkdirs (cl_io V) ClientMkdir F (butlast local_path) of
             None \<Rightarrow> ((F, srv'), False)
           | Some F1 \<Rightarrow>
               (case write_file (cl_io V) ClientWrite F1 local_path b of
                  None \<Rightarrow> ((F1, srv'), False)
                | Some F2 \<Rightarrow> ((F2, srv'), True)))
      | (srv', _) \<Rightarrow> ((F, srv'), False)))"

section \<open>Backups\<close>

fun show_nat :: "nat \<Rightarrow> str" where
  "show_nat n = (if n < 10 then [char_of (48 + n)] else show_nat (n div 10) @ [char_of (48 + n mod 10)])"

definition backup_candidate :: "path \<Rightarrow> str \<Rightarrow> nat \<Rightarrow> path" where
  "backup_candidate content_dir timestamp k =
     content_dir @ [''.backups'', if k = 0 then timestamp else timestamp @ ''-'' @ show_nat k]"

text \<open>The loop that looks for a fresh directory; it needs one round more than there are paths.\<close>

fun fresh_backup_dir :: "nat \<Rightarrow> fs \<Rightarrow> path \<Rightarrow> str \<Rightarrow> nat \<Rightarrow> path option" where
  "fresh_backup_dir 0 F d ts k = None"
| "fresh_backup_dir (Suc fuel) F d ts k =
     (if path_exists F (backup_candidate d ts k) then fresh_backup_dir fuel F d ts (Suc k)
      else Some (backup_candidate d ts k))"

definition backup_dir_for :: "fs \<Rightarrow> path \<Rightarrow> str \<Rightarrow> path option" where
  "backup_dir_for F d ts = fresh_backup_dir (Suc (length (files F) + length (dirs F))) F d ts 0"

text \<open>Copying one conflicted file; \<open>dest\<close> is \<open>backup_dir / fp\<close>.\<close>

definition backup_one :: "client_env \<Rightarrow> path \<Rightarrow> path \<Rightarrow> str \<Rightarrow> fs \<times> nat \<Rightarrow> fs \<times> nat" where
  "backup_one V content_dir backup_dir fp = (\<lambda>(F, backed_up).
     case is_safe_local_path content_dir fp of
       None \<Rightarrow> (F, backed_up)
     | Some local_path \<Rightarrow>
         (let dest = join_path backup_dir fp in
          case mkdirs (cl_io V) BackupMkdir F (butlast dest) of
            None \<Rightarrow> (F, backed_up)
          | Some F1 \<Rightarrow>
              (case read_file F1 local_path of
                 None \<Rightarrow> (F1, backed_up)
               | Some b \<Rightarrow>
                   if dest = local_path then (F1, backed_up)
                   else (case write_file (cl_io V) BackupCopy F1 dest b of
                      None \<Rightarrow> (F1, backed_up)
                    | Some F2 \<Rightarrow> (F2, Suc backed_up)))))"

text \<open>\<open>shutil.rmtree\<close> of the backup directory, and of \<^verbatim>\<open>.backups\<close> when that is empty.\<close>

definition remove_tree :: "fs \<Rightarrow> path \<Rightarrow> fs" where
  "remove_tree F d = F\<lparr>files := filter (\<lambda>(p, b). \<not> prefix d p) (files F),
     dirs := filter (\<lambda>p. \<not> prefix d p) (dirs F)\<rparr>"

definition clean_backups :: "client_env \<Rightarrow> path \<Rightarrow> path \<Rightarrow> fs \<Rightarrow> fs" where
  "clean_backups V backups_root backup_dir F =
     (let F1 = remove_tree F backup_dir in
      case rmdir (cl_io V) F1 backups_root of None \<Rightarrow> F1 | Some F2 \<Rightarrow> F2)"

definition backup_conflicted_files :: "client_env \<Rightarrow> path \<Rightarrow> str list \<Rightarrow> fs \<Rightarrow> fs \<times> path option" where
  "backup_conflicted_files V content_dir conflicted F =
     (if conflicted = [] then (F, None)
      else (case backup_dir_for F content_dir (cl_time V) of
        None \<Rightarrow> (F, None)
      | Some backup_dir \<Rightarrow>
          (let (F', backed_up) = fold (backup_one V content_dir backup_dir) conflicted (F, 0) in
           if backed_up = 0
           then (clean_backups V (content_dir @ [''.backups'']) backup_dir F', None)
           else (F', Some backup_dir))))"

section \<open>One sync run\<close>

text \<open>The conflicts of the plan: a file deleted here and changed there is fetched, any other is
  uploaded for the server to merge.\<close>

definition plan_conflict :: "path \<Rightarrow> fs \<Rightarrow> sync_change \<Rightarrow> str list \<times> str list \<Rightarrow> str list \<times> str list" where
  "plan_conflict content_dir F c = (\<lambda>(uploads, conflict_downloads).
     let fp = change_path c; gone = (case is_safe_local_path content_dir fp of
           None \<Rightarrow> False | Some local_path \<Rightarrow> \<not> path_exists F local_path) in
     if change_kind c = DELETE_MODIFY_CONFLICT \<and> gone
     then (uploads, if fp \<in> set conflict_downloads then conflict_downloads else conflict_downloads @ [fp])
     else (if fp \<in> set uploads then uploads else uploads @ [fp], conflict_downloads))"

text \<open>Reading the files to send; a path that cannot be read is skipped.\<close>

definition read_upload :: "client_env \<Rightarrow> path \<Rightarrow> fs \<Rightarrow> str \<Rightarrow> (str \<times> bytes) list \<times> str list \<Rightarrow> (str \<times> bytes) list \<times> str list" where
  "read_upload V content_dir F fp = (\<lambda>(files_to_send, problems).
     case is_safe_local_path content_dir fp of
       None \<Rightarrow> (files_to_send, problems @ [fp])
     | Some full_path \<Rightarrow>
         (case read_file F full_path of
            None \<Rightarrow> (files_to_send, problems @ [fp])
          | Some b \<Rightarrow> if cl_io V ClientRead full_path then (files_to_send, problems @ [fp])
              else (files_to_send @ [(fp, b)], problems)))"

definition append_new :: "str list \<Rightarrow> str list \<Rightarrow> str list" where
  "append_new xs ys = fold (\<lambda>fp l. if fp \<in> set l then l else l @ [fp]) ys xs"

record 's run_state =
  run_fs :: fs
  run_server :: 's
  run_problems :: "str list"

definition download_step :: "client_env \<Rightarrow> 's remote \<Rightarrow> path \<Rightarrow> str \<Rightarrow> 's run_state \<Rightarrow> 's run_state" where
  "download_step V R content_dir fp s =
     (let ((F, srv), ok) = download_file V R content_dir fp (run_fs s) (run_server s)
      in s\<lparr>run_fs := F, run_server := srv,
           run_problems := run_problems s @ (if ok then [] else [fp])\<rparr>)"

definition delete_local_step :: "client_env \<Rightarrow> path \<Rightarrow> str \<Rightarrow> 's run_state \<Rightarrow> 's run_state" where
  "delete_local_step V content_dir fp s =
     (case is_safe_local_path content_dir fp of
        None \<Rightarrow> s\<lparr>run_problems := run_problems s @ [fp]\<rparr>
      | Some local_path \<Rightarrow>
          if \<not> path_exists (run_fs s) local_path then s
          else (case unlink (cl_io V) ClientUnlink (run_fs s) local_path of
                  None \<Rightarrow> s\<lparr>run_problems := run_problems s @ [fp]\<rparr>
                | Some F' \<Rightarrow> s\<lparr>run_fs := prune_empty_parents (cl_io V) F' (butlast local_path) content_dir\<rparr>))"

datatype sync_outcome = SyncFailed nat | SyncAborted | SyncDone "str list"

text \<open>What follows the commit: backups, downloads, local deletions, the new commit hash and the
  rescan.\<close>

definition finish_sync ::
  "client_env \<Rightarrow> 's remote \<Rightarrow> sync_plan \<Rightarrow> str list \<Rightarrow> str list \<Rightarrow> commit_data \<Rightarrow> client \<Rightarrow> 's
   \<Rightarrow> (client \<times> 's) \<times> sync_outcome" where
  "finish_sync V R plan conflict_downloads problems resp C srv =
     (let d = cl_dir C;
          (F1, _) = backup_conflicted_files V d (data_conflicts resp) (cl_fs C);
          all_downloads = append_new (append_new (to_download plan) conflict_downloads) (data_to_download resp);
          s1 = fold (download_step V R d) all_downloads \<lparr>run_fs = F1, run_server = srv, run_problems = problems\<rparr>;
          s2 = fold (delete_local_step V d) (to_delete_local plan) s1;
          C1 = save_commit_hash V (data_commit_hash resp) (C\<lparr>cl_fs := run_fs s2\<rparr>)
      in case scan_local_files V d (cl_fs C1) of
           None \<Rightarrow> ((C1, run_server s2), SyncAborted)
         | Some m \<Rightarrow> ((C1\<lparr>cl_manifest := m\<rparr>, run_server s2), SyncDone (run_problems s2)))"

definition client_sync ::
  "client_env \<Rightarrow> 's remote \<Rightarrow> sync_plan \<Rightarrow> client \<Rightarrow> 's \<Rightarrow> (client \<times> 's) \<times> sync_outcome" where
  "client_sync V R plan C srv =
     (let (uploads, conflict_downloads) =
            fold (plan_conflict (cl_dir C) (cl_fs C)) (conflicts plan) (to_upload plan, []);
          (files_to_send, problems) = fold (read_upload V (cl_dir C) (cl_fs C)) uploads ([], []) in
      case post_commit R (to_delete_remote plan) (get_last_sync_commit C) files_to_send srv of
        (srv', CommitError code) \<Rightarrow> ((C, srv'), SyncFailed code)
      | (srv', CommitTransport) \<Rightarrow> ((C, srv'), SyncAborted)
      | (srv', CommitReply resp) \<Rightarrow>
          finish_sync V R plan conflict_downloads problems resp C srv')"

end
