(* ===== verification/ClientRun.thy ===== *)
theory ClientRun
  imports SyncClient
begin

text \<open>
  What one run of the client does to its own files, for any server that keeps the contract of the
  locale \<open>sync_server\<close>: the client's lemma \<open>run_agrees\<close> says that after a run without problems
  client and server hold the same content under every name the plan speaks of.
\<close>

section \<open>The client's paths\<close>

lemma safe_local_valid:
  assumes "valid_name n" and "proper d"
  shows "is_safe_local_path d n = Some (join_path d n)"
proof -
  have "resolve_path (join_path d n) = join_path d n"
    by (rule proper_resolve [OF valid_proper [OF assms]])
  then show ?thesis
    using assms by (simp add: is_safe_local_path_def proper_resolve valid_name_def join_clean)
qed

text \<open>Two trees that agree on every scanned path.\<close>

definition same_scanned :: "path \<Rightarrow> fs \<Rightarrow> fs \<Rightarrow> bool" where
  "same_scanned d F F' \<longleftrightarrow> (\<forall>q. scanned d q \<longrightarrow> read_file F' q = read_file F q)"

lemma same_scanned_content: "same_scanned d F F' \<Longrightarrow> content_at d F' n = content_at d F n"
  using scanned_join [of n d] by (auto simp: content_at_def same_scanned_def)

lemma same_scanned_trans: "same_scanned d F F1 \<Longrightarrow> same_scanned d F1 F2 \<Longrightarrow> same_scanned d F F2"
  by (simp add: same_scanned_def)

lemma same_scanned_refl [simp]: "same_scanned d F F"
  by (simp add: same_scanned_def)

section \<open>Backups stay out of the sync surface\<close>

lemma backup_not_scanned: "prefix (d @ [''.backups'']) q \<Longrightarrow> \<not> scanned d q"
  by (auto simp: scanned_def prefix_def list_ex_iff)

lemma backup_candidate_prefix: "prefix (d @ [''.backups'']) (backup_candidate d ts k)"
  by (simp add: backup_candidate_def)

lemma fresh_backup_dir_prefix: "fresh_backup_dir fuel F d ts k = Some p \<Longrightarrow> prefix (d @ [''.backups'']) p"
proof (induction fuel arbitrary: k)
  case (Suc fuel)
  then show ?case
    using backup_candidate_prefix [of d ts k]
    by (cases "path_exists F (backup_candidate d ts k)") (simp_all del: One_nat_def)
qed simp

lemma backup_one_cases:
  assumes "backup_one V d bd fp (F, k) = (F', k')"
  obtains "F' = F"
  | F1 where "mkdirs (cl_io V) BackupMkdir F (butlast (join_path bd fp)) = Some F1" "F' = F1"
  | F1 b where "mkdirs (cl_io V) BackupMkdir F (butlast (join_path bd fp)) = Some F1"
      "write_file (cl_io V) BackupCopy F1 (join_path bd fp) b = Some F'"
proof (cases "is_safe_local_path d fp")
  case None
  with assms that(1) show thesis by (simp add: backup_one_def)
next
  case lp: (Some lp)
  show thesis
  proof (cases "mkdirs (cl_io V) BackupMkdir F (butlast (join_path bd fp))")
    case None
    with assms lp that(1) show thesis by (simp add: backup_one_def)
  next
    case F1: (Some F1)
    show thesis
    proof (cases "read_file F1 lp")
      case None
      with assms lp F1 that(2) show thesis by (simp add: backup_one_def)
    next
      case b: (Some b)
      show thesis
      proof (cases "join_path bd fp = lp \<or> write_file (cl_io V) BackupCopy F1 (join_path bd fp) b = None")
        case True
        with assms lp F1 b that(2) show thesis by (auto simp: backup_one_def Let_def split: if_splits)
      next
        case False
        with assms lp F1 b that(3) show thesis by (auto simp: backup_one_def Let_def split: if_splits)
      qed
    qed
  qed
qed

lemma backup_one_scanned:
  assumes "prefix (d @ [''.backups'']) bd" and "clean_name fp" and "backup_one V d bd fp (F, k) = (F', k')"
  shows "same_scanned d F F'"
proof -
  have "prefix (d @ [''.backups'']) (join_path bd fp)"
    unfolding join_clean [OF assms(2)] by (rule prefix_prefix [OF assms(1)])
  then have dest: "\<not> scanned d (join_path bd fp)" by (rule backup_not_scanned)
  from assms(3) show ?thesis
  proof (cases rule: backup_one_cases)
    case (2 F1)
    then show ?thesis using read_mkdirs by (simp add: same_scanned_def)
  next
    case (3 F1 b)
    then have "read_file F' q = read_file F q" if "q \<noteq> join_path bd fp" for q
      using that read_mkdirs [OF 3(1)] fs_store.put_changes_only [OF 3(2)] by simp
    with dest show ?thesis unfolding same_scanned_def by metis
  qed simp
qed

lemma backups_scanned:
  "prefix (d @ [''.backups'']) bd \<Longrightarrow> list_all clean_name fps \<Longrightarrow>
   fold (backup_one V d bd) fps (F, k) = (F', k') \<Longrightarrow> same_scanned d F F'"
proof (induction fps arbitrary: F k)
  case (Cons fp fps)
  obtain F1 k1 where one: "backup_one V d bd fp (F, k) = (F1, k1)" by fastforce
  with Cons have "same_scanned d F1 F'" by simp
  moreover have "same_scanned d F F1"
    using backup_one_scanned [OF Cons.prems(1) _ one] Cons.prems(2) by simp
  ultimately show ?case using same_scanned_trans by blast
qed simp

lemma read_remove_tree: "\<not> prefix d q \<Longrightarrow> read_file (remove_tree F d) q = read_file F q"
proof -
  assume q: "\<not> prefix d q"
  have "map_of (filter (\<lambda>(p, b). \<not> prefix d p) xs) q = map_of xs q" for xs :: "(path \<times> bytes) list"
    using q by (induction xs) auto
  then show ?thesis by (simp add: read_file_def remove_tree_def)
qed

lemma read_rmdir: "rmdir io F d = Some F' \<Longrightarrow> read_file F' q = read_file F q"
  by (auto simp: rmdir_def read_file_def split: if_splits)

lemma clean_backups_scanned:
  assumes "prefix (d @ [''.backups'']) bd"
  shows "same_scanned d F (clean_backups V root bd F)"
proof -
  have "read_file (remove_tree F bd) q = read_file F q" if "scanned d q" for q
    using read_remove_tree backup_not_scanned that assms prefix_order.trans by blast
  then show ?thesis
    by (auto simp: same_scanned_def clean_backups_def Let_def read_rmdir split: option.split)
qed

lemma backup_conflicted_scanned:
  assumes "list_all clean_name fps" and "backup_conflicted_files V d fps F = (F', r)"
  shows "same_scanned d F F'"
proof (cases "fps = [] \<or> backup_dir_for F d (cl_time V) = None")
  case True
  then have "F' = F" using assms(2) by (elim disjE) (simp_all add: backup_conflicted_files_def split: if_splits)
  then show ?thesis by simp
next
  case False
  then obtain bd where bd: "backup_dir_for F d (cl_time V) = Some bd" by auto
  then have pre: "prefix (d @ [''.backups'']) bd"
    unfolding backup_dir_for_def by (rule fresh_backup_dir_prefix)
  obtain F1 k where F1: "fold (backup_one V d bd) fps (F, 0) = (F1, k)" by fastforce
  have "same_scanned d F F1" by (rule backups_scanned [OF pre assms(1) F1])
  moreover have "same_scanned d F1 F'"
    using assms(2) False bd F1 clean_backups_scanned [OF pre]
    by (auto simp: backup_conflicted_files_def split: if_splits)
  ultimately show ?thesis by (rule same_scanned_trans)
qed

section \<open>A fresh backup directory is found\<close>

lemma digit_inj: "m < 10 \<Longrightarrow> n < 10 \<Longrightarrow> (char_of (48 + m) :: char) = char_of (48 + n) \<Longrightarrow> m = (n :: nat)"
proof -
  assume "m < 10" "n < 10" "(char_of (48 + m) :: char) = char_of (48 + n)"
  then have "(of_char (char_of (48 + m) :: char) :: nat) = of_char (char_of (48 + n) :: char)" by simp
  with \<open>m < 10\<close> \<open>n < 10\<close> show "m = n" by (simp only: of_char_of) (simp add: mod_less)
qed

declare show_nat.simps [simp del]

lemma show_nat_small: "n < 10 \<Longrightarrow> show_nat n = [char_of (48 + n)]"
  by (subst show_nat.simps) simp

lemma show_nat_large: "\<not> n < 10 \<Longrightarrow> show_nat n = show_nat (n div 10) @ [char_of (48 + n mod 10)]"
  by (subst show_nat.simps) simp

lemma show_nat_nonempty [simp]: "show_nat n \<noteq> []"
  by (cases "n < 10") (simp_all add: show_nat_small show_nat_large)

lemma show_nat_nonempty2 [simp]: "[] \<noteq> show_nat n"
  using show_nat_nonempty [of n] by metis

lemma show_nat_inj: "show_nat m = show_nat n \<Longrightarrow> m = n"
proof (induction m arbitrary: n rule: less_induct)
  case (less m)
  show ?case
  proof (cases "m < 10")
    case m: True
    then have "n < 10" using less.prems
      by (cases "n < 10") (simp_all add: show_nat_small show_nat_large)
    with m less.prems show ?thesis using digit_inj by (simp add: show_nat_small)
  next
    case m: False
    then have n: "\<not> n < 10" using less.prems
      by (cases "n < 10") (simp_all add: show_nat_small show_nat_large)
    with m less.prems have eq: "show_nat (m div 10) = show_nat (n div 10)"
      "(char_of (48 + m mod 10) :: char) = char_of (48 + n mod 10)"
      by (simp_all add: show_nat_large)
    have "m div 10 = n div 10" using less.IH [of "m div 10", OF _ eq(1)] m by simp
    moreover have "m mod 10 = n mod 10" using digit_inj eq(2) by simp
    ultimately show ?thesis by (metis div_mult_mod_eq)
  qed
qed

lemma backup_candidate_inj: "backup_candidate d ts j = backup_candidate d ts k \<Longrightarrow> j = k"
  by (auto simp: backup_candidate_def split: if_splits dest: show_nat_inj)

lemma fresh_backup_dir_None:
  "fresh_backup_dir fuel F d ts k = None \<Longrightarrow> j < fuel \<Longrightarrow> path_exists F (backup_candidate d ts (k + j))"
proof (induction fuel arbitrary: k j)
  case (Suc fuel)
  then show ?case by (cases j) (auto split: if_splits dest: Suc.IH [of "Suc k"])
qed simp

lemma existing_paths: "path_exists F p \<Longrightarrow> p \<noteq> [] \<Longrightarrow> p \<in> set (map fst (files F) @ dirs F)"
  by (auto simp: path_exists_def is_file_def is_dir_def read_file_def dest!: map_of_SomeD)
    (metis fst_conv image_eqI)

lemma fresh_backup_dir_free: "fresh_backup_dir fuel F d ts k = Some p \<Longrightarrow> \<not> path_exists F p"
proof (induction fuel arbitrary: k)
  case (Suc fuel)
  then show ?case by (cases "path_exists F (backup_candidate d ts k)") simp_all
qed simp

lemma backup_dir_found: "\<exists>p. backup_dir_for F d ts = Some p"
proof (rule ccontr)
  let ?n = "length (files F) + length (dirs F)" and ?E = "set (map fst (files F) @ dirs F)"
  assume "\<nexists>p. backup_dir_for F d ts = Some p"
  then have none: "fresh_backup_dir (Suc ?n) F d ts 0 = None"
    by (simp add: backup_dir_for_def)
  have "backup_candidate d ts ` {..?n} \<subseteq> ?E"
  proof
    fix q
    assume "q \<in> backup_candidate d ts ` {..?n}"
    then obtain j where j: "q = backup_candidate d ts j" "j < Suc ?n" by auto
    have "path_exists F q" using fresh_backup_dir_None [OF none j(2)] j(1) by simp
    then show "q \<in> ?E" using j(1) by (intro existing_paths) (simp_all add: backup_candidate_def)
  qed
  then have "card (backup_candidate d ts ` {..?n}) \<le> card ?E" by (intro card_mono) simp_all
  moreover have "card (backup_candidate d ts ` {..?n}) = Suc ?n"
    using backup_candidate_inj by (subst card_image) (auto simp: inj_on_def)
  moreover have "card ?E \<le> ?n" using card_length [of "map fst (files F) @ dirs F"] by simp
  ultimately show False by simp
qed

section \<open>Planning the uploads\<close>

lemma plan_conflicts_sets:
  assumes "fold (plan_conflict d F) cs (us, ds) = (us', ds')"
  shows "set us \<subseteq> set us' \<and> set ds \<subseteq> set ds' \<and>
    change_path ` set cs \<subseteq> set us' \<union> set ds' \<and>
    set us' \<union> set ds' \<subseteq> set us \<union> set ds \<union> change_path ` set cs \<and>
    (distinct us \<longrightarrow> distinct us') \<and>
    (distinct (map change_path cs) \<longrightarrow> set us \<inter> set ds = {} \<longrightarrow>
      change_path ` set cs \<inter> (set us \<union> set ds) = {} \<longrightarrow> set us' \<inter> set ds' = {})"
  using assms
proof (induction cs arbitrary: us ds)
  case (Cons c cs)
  obtain us1 ds1 where one: "plan_conflict d F c (us, ds) = (us1, ds1)" by fastforce
  with Cons.prems have "fold (plan_conflict d F) cs (us1, ds1) = (us', ds')" by simp
  note IH = Cons.IH [OF this]
  have "us1 = us \<and> (ds1 = ds @ [change_path c] \<or> change_path c \<in> set ds \<and> ds1 = ds) \<or>
      ds1 = ds \<and> (us1 = us @ [change_path c] \<and> change_path c \<notin> set us \<or> change_path c \<in> set us \<and> us1 = us)"
    using one by (auto simp: plan_conflict_def Let_def split: if_splits)
  then show ?case using IH by (elim disjE conjE) auto
qed simp

lemma read_uploads_all:
  assumes "fold (read_upload V d F) fps (fs, ps) = (fs', [])"
  shows "ps = [] \<and> map fst fs' = map fst fs @ fps \<and>
    (\<forall>n b. (n, b) \<in> set fs' \<longrightarrow> (n, b) \<in> set fs \<or>
       (\<exists>p. is_safe_local_path d n = Some p \<and> read_file F p = Some b))"
  using assms
proof (induction fps arbitrary: fs ps)
  case (Cons fp fps)
  obtain fs1 ps1 where one: "read_upload V d F fp (fs, ps) = (fs1, ps1)" by fastforce
  with Cons.prems have "fold (read_upload V d F) fps (fs1, ps1) = (fs', [])" by simp
  note IH = Cons.IH [OF this]
  then obtain p b where "is_safe_local_path d fp = Some p" "read_file F p = Some b"
    "fs1 = fs @ [(fp, b)]" "ps1 = ps"
    using one by (auto simp: read_upload_def split: option.splits if_splits)
  with IH show ?case by auto
qed simp

section \<open>Downloads and local deletions\<close>

lemma delete_local_keeps:
  assumes "valid_name n" and "proper d" and "run_problems (delete_local_step V d n s) = []"
  shows "run_problems s = []" "run_server (delete_local_step V d n s) = run_server s"
    "read_file (run_fs (delete_local_step V d n s)) q =
      (if q = join_path d n then None else read_file (run_fs s) q)"
proof -
  let ?p = "join_path d n"
  have safe: "is_safe_local_path d n = Some ?p" by (rule safe_local_valid [OF assms(1,2)])
  have "run_problems s = [] \<and> run_server (delete_local_step V d n s) = run_server s \<and>
    read_file (run_fs (delete_local_step V d n s)) q = (if q = ?p then None else read_file (run_fs s) q)"
  proof (cases "path_exists (run_fs s) ?p")
    case False
    then show ?thesis
      using assms(3) safe by (auto simp: delete_local_step_def path_exists_def is_file_def)
  next
    case True
    then obtain F' where "unlink (cl_io V) ClientUnlink (run_fs s) ?p = Some F'"
      using assms(3) safe by (auto simp: delete_local_step_def split: option.splits)
    then show ?thesis
      using assms(3) safe True read_unlink [of "cl_io V" ClientUnlink "run_fs s" ?p F' q]
      by (simp add: delete_local_step_def prune_empty_parents_def)
  qed
  then show "run_problems s = []" "run_server (delete_local_step V d n s) = run_server s"
    "read_file (run_fs (delete_local_step V d n s)) q = (if q = ?p then None else read_file (run_fs s) q)"
    by blast+
qed

lemma delete_local_fold:
  assumes "proper d"
  shows "\<forall>n\<in>set ns. valid_name n \<Longrightarrow> run_problems (fold (delete_local_step V d) ns s) = [] \<Longrightarrow>
    run_problems s = [] \<and> run_server (fold (delete_local_step V d) ns s) = run_server s \<and>
    (\<forall>q. read_file (run_fs (fold (delete_local_step V d) ns s)) q =
       (if q \<in> join_path d ` set ns then None else read_file (run_fs s) q))"
proof (induction ns arbitrary: s)
  case (Cons n ns)
  have IH: "run_problems (delete_local_step V d n s) = [] \<and>
      run_server (fold (delete_local_step V d) (n # ns) s) = run_server (delete_local_step V d n s) \<and>
      (\<forall>q. read_file (run_fs (fold (delete_local_step V d) (n # ns) s)) q =
        (if q \<in> join_path d ` set ns then None else read_file (run_fs (delete_local_step V d n s)) q))"
    using Cons.IH [of "delete_local_step V d n s"] Cons.prems by simp
  have "valid_name n" using Cons.prems(1) by simp
  from delete_local_keeps [OF this assms IH [THEN conjunct1]] IH show ?case by auto
qed simp

section \<open>The contract of a sync server\<close>

definition valid_request :: "str list \<Rightarrow> (str \<times> bytes) list \<Rightarrow> bool" where
  "valid_request del ups \<longleftrightarrow> (\<forall>n\<in>set del \<union> set (map fst ups). valid_name n) \<and>
     distinct (map fst ups) \<and> set del \<inter> set (map fst ups) = {}"

text \<open>What a commit promises about the contents before and after it.\<close>

definition commit_promise ::
  "(str \<Rightarrow> bytes option) \<Rightarrow> (str \<Rightarrow> bytes option) \<Rightarrow> str list \<Rightarrow> (str \<times> bytes) list \<Rightarrow> commit_data \<Rightarrow> bool" where
  "commit_promise v v' del ups resp \<longleftrightarrow>
     (\<forall>n. valid_name n \<longrightarrow> n \<notin> set del \<union> set (map fst ups) \<longrightarrow> v' n = v n) \<and>
     (\<forall>n\<in>set del. v' n = None) \<and>
     (\<forall>n b. (n, b) \<in> set ups \<longrightarrow> n \<in> set (data_to_download resp) \<or> v' n = Some b) \<and>
     set (data_to_download resp) \<subseteq> set (map fst ups) \<and> set (data_conflicts resp) \<subseteq> set (map fst ups)"

text \<open>A plan that speaks of valid names, each once, and deletes only where the other side has
  nothing.\<close>

definition plan_names :: "sync_plan \<Rightarrow> str list" where
  "plan_names plan = to_upload plan @ to_download plan @ to_delete_remote plan @ to_delete_local plan @
     map change_path (conflicts plan)"

definition sound_plan :: "(str \<Rightarrow> bytes option) \<Rightarrow> (str \<Rightarrow> bytes option) \<Rightarrow> sync_plan \<Rightarrow> bool" where
  "sound_plan cv sv plan \<longleftrightarrow> (\<forall>n\<in>set (plan_names plan). valid_name n) \<and> distinct (plan_names plan) \<and>
     (\<forall>n\<in>set (to_delete_remote plan). cv n = None) \<and> (\<forall>n\<in>set (to_delete_local plan). sv n = None)"

lemma append_new_set: "set (append_new xs ys) = set xs \<union> set ys"
  unfolding append_new_def by (induction ys arbitrary: xs) auto

text \<open>Problems are only added.\<close>

lemma download_problems: "prefix (run_problems s) (run_problems (fold (download_step V R d) ns s))"
proof (induction ns arbitrary: s)
  case (Cons n ns)
  have "prefix (run_problems s) (run_problems (download_step V R d n s))"
    by (simp add: download_step_def split: prod.split)
  then show ?case using Cons.IH [of "download_step V R d n s"] by (simp add: prefix_order.trans)
qed simp

lemma delete_local_problems: "prefix (run_problems s) (run_problems (fold (delete_local_step V d) ns s))"
proof (induction ns arbitrary: s)
  case (Cons n ns)
  have "prefix (run_problems s) (run_problems (delete_local_step V d n s))"
    by (simp add: delete_local_step_def split: option.split)
  then show ?case using Cons.IH [of "delete_local_step V d n s"] by (simp add: prefix_order.trans)
qed simp

lemma finish_no_problems:
  assumes "finish_sync V R plan cds probs resp C s = (x, SyncDone [])"
  shows "probs = []"
proof -
  obtain F1 bd where F1: "backup_conflicted_files V (cl_dir C) (data_conflicts resp) (cl_fs C) = (F1, bd)" by fastforce
  define s1 where "s1 = fold (download_step V R (cl_dir C))
    (append_new (append_new (to_download plan) cds) (data_to_download resp))
    \<lparr>run_fs = F1, run_server = s, run_problems = probs\<rparr>"
  have "run_problems (fold (delete_local_step V (cl_dir C)) (to_delete_local plan) s1) = []"
    using assms F1 by (auto simp: finish_sync_def Let_def s1_def [symmetric] split: option.splits)
  then have "run_problems s1 = []"
    using delete_local_problems [of s1 V "cl_dir C" "to_delete_local plan"] by simp
  then show ?thesis
    using download_problems [of "\<lparr>run_fs = F1, run_server = s, run_problems = probs\<rparr>" V R "cl_dir C"]
    unfolding s1_def by (metis prefix_bot.extremum_unique run_state.select_convs(3))
qed

locale sync_server =
  fixes R :: "'s remote" and served :: "'s \<Rightarrow> str \<Rightarrow> bytes option"
    and good :: "'s \<Rightarrow> bool" and reach :: "str \<Rightarrow> bool"
  assumes get_keeps: "get_file R n s = (s', r) \<Longrightarrow> s' = s"
    and get_served: "good s \<Longrightarrow> valid_name n \<Longrightarrow> reach n \<Longrightarrow> get_file R n s = (s', FileReply b) \<Longrightarrow>
      served s n = Some b"
    and post_contract: "good s \<Longrightarrow> valid_request del ups \<Longrightarrow>
      post_commit R del c ups s = (s', CommitReply resp) \<Longrightarrow>
      good s' \<and> commit_promise (served s) (served s') del ups resp"
begin

lemma download_step_reads:
  assumes "valid_name n" and "reach n" and "proper d" and "good (run_server s)"
    and "run_problems (download_step V R d n s) = []"
  shows "run_problems s = []" "run_server (download_step V R d n s) = run_server s"
    "read_file (run_fs (download_step V R d n s)) q =
      (if q = join_path d n then served (run_server s) n else read_file (run_fs s) q)"
proof -
  let ?p = "join_path d n"
  obtain F srv ok where dl: "download_file V R d n (run_fs s) (run_server s) = ((F, srv), ok)"
    by (metis prod.collapse)
  with assms(5) have ok: "ok" "run_problems s = []" by (auto simp: download_step_def split: if_splits)
  obtain srv' r where get: "get_file R n (run_server s) = (srv', r)" by fastforce
  with dl ok(1) obtain b F1 where r: "r = FileReply b" "srv = srv'"
    "mkdirs (cl_io V) ClientMkdir (run_fs s) (butlast ?p) = Some F1"
    "write_file (cl_io V) ClientWrite F1 ?p b = Some F"
    by (auto simp: download_file_def safe_local_valid [OF assms(1,3)] split: option.splits file_reply.splits)
  have srv: "srv' = run_server s" by (rule get_keeps [OF get])
  have "served (run_server s) n = Some b"
    using get_served [OF assms(4,1,2)] get r(1) by simp
  then show "run_problems s = []" "run_server (download_step V R d n s) = run_server s"
    "read_file (run_fs (download_step V R d n s)) q =
      (if q = ?p then served (run_server s) n else read_file (run_fs s) q)"
    using dl ok r srv read_write_file [OF r(4), of q] read_mkdirs [OF r(3)]
    by (simp_all add: download_step_def)
qed

lemma download_fold:
  assumes "proper d"
  shows "\<forall>n\<in>set ns. valid_name n \<and> reach n \<Longrightarrow> good (run_server s) \<Longrightarrow>
    run_problems (fold (download_step V R d) ns s) = [] \<Longrightarrow>
    run_problems s = [] \<and> run_server (fold (download_step V R d) ns s) = run_server s \<and>
    (\<forall>q. q \<notin> join_path d ` set ns \<longrightarrow>
       read_file (run_fs (fold (download_step V R d) ns s)) q = read_file (run_fs s) q) \<and>
    (\<forall>n\<in>set ns. read_file (run_fs (fold (download_step V R d) ns s)) (join_path d n) = served (run_server s) n)"
proof (induction ns arbitrary: s)
  case (Cons n ns)
  define s1 where "s1 = download_step V R d n s"
  have n: "valid_name n" "reach n" "\<forall>n\<in>set ns. valid_name n \<and> reach n" using Cons.prems(1) by auto
  have end1: "run_problems (fold (download_step V R d) ns s1) = []" using Cons.prems(3) by (simp add: s1_def)
  have server: "run_server s1 = run_server s"
    using get_keeps unfolding s1_def download_step_def download_file_def
    by (auto split: prod.splits option.splits file_reply.splits)
  have IH: "run_problems s1 = [] \<and> run_server (fold (download_step V R d) ns s1) = run_server s1 \<and>
    (\<forall>q. q \<notin> join_path d ` set ns \<longrightarrow>
       read_file (run_fs (fold (download_step V R d) ns s1)) q = read_file (run_fs s1) q) \<and>
    (\<forall>n\<in>set ns. read_file (run_fs (fold (download_step V R d) ns s1)) (join_path d n) = served (run_server s1) n)"
    using Cons.IH [OF n(3) _ end1] Cons.prems(2) server by simp
  note step = download_step_reads [OF n(1,2) assms Cons.prems(2) IH [THEN conjunct1, unfolded s1_def], folded s1_def]
  let ?final = "run_fs (fold (download_step V R d) ns s1)"
  have "read_file ?final (join_path d n) = served (run_server s) n"
  proof (cases "n \<in> set ns")
    case False
    then have "join_path d n \<notin> join_path d ` set ns"
      using valid_join_inj [OF n(1), of _ d] n(3) by auto
    then show ?thesis using IH step(3) [of "join_path d n"] by simp
  qed (use IH server in simp)
  then show ?case
    using IH step(1,3) server by (simp add: s1_def [symmetric])
qed simp

text \<open>The client's tree after the commit: backups do not show, downloads hold what the server serves,
  local deletions are gone.\<close>

lemma finish_reads:
  assumes "finish_sync V R plan cds probs resp C s = ((C', s'), SyncDone [])"
    and "good s" and "proper (cl_dir C)" and "list_all clean_name (data_conflicts resp)"
    and "\<forall>n\<in>set (to_download plan) \<union> set cds \<union> set (data_to_download resp). valid_name n \<and> reach n"
    and "\<forall>n\<in>set (to_delete_local plan). valid_name n"
  shows "s' = s" "probs = []" "cl_dir C' = cl_dir C"
    "scanned (cl_dir C) q \<Longrightarrow> q \<notin> join_path (cl_dir C) ` (set (to_download plan) \<union> set cds \<union>
       set (data_to_download resp) \<union> set (to_delete_local plan)) \<Longrightarrow>
     read_file (cl_fs C') q = read_file (cl_fs C) q"
    "n \<in> set (to_delete_local plan) \<Longrightarrow> read_file (cl_fs C') (join_path (cl_dir C) n) = None"
    "n \<in> set (to_download plan) \<union> set cds \<union> set (data_to_download resp) \<Longrightarrow>
     n \<notin> set (to_delete_local plan) \<Longrightarrow> read_file (cl_fs C') (join_path (cl_dir C) n) = served s n"
proof -
  define d where "d = cl_dir C"
  obtain F1 bd where F1: "backup_conflicted_files V d (data_conflicts resp) (cl_fs C) = (F1, bd)" by fastforce
  define dls where "dls = append_new (append_new (to_download plan) cds) (data_to_download resp)"
  have dls: "set dls = set (to_download plan) \<union> set cds \<union> set (data_to_download resp)"
    by (simp add: dls_def append_new_set)
  define s1 where "s1 = fold (download_step V R d) dls \<lparr>run_fs = F1, run_server = s, run_problems = probs\<rparr>"
  define s2 where "s2 = fold (delete_local_step V d) (to_delete_local plan) s1"
  have C': "s' = run_server s2" "run_problems s2 = []" "cl_fs C' = run_fs s2" "cl_dir C' = d"
    using assms(1) F1
    by (auto simp: finish_sync_def Let_def d_def [symmetric] dls_def [symmetric] s1_def [symmetric]
        s2_def [symmetric] save_commit_hash_def split: option.splits if_splits)
  have del: "run_problems s1 = [] \<and> run_server s2 = run_server s1 \<and>
      (\<forall>q. read_file (run_fs s2) q = (if q \<in> join_path d ` set (to_delete_local plan) then None else read_file (run_fs s1) q))"
    unfolding s2_def
    by (rule delete_local_fold [OF _ assms(6)]) (simp_all add: assms(3) d_def C'(2) [unfolded s2_def, unfolded d_def])
  have dl: "probs = [] \<and> run_server s1 = s \<and>
      (\<forall>q. q \<notin> join_path d ` set dls \<longrightarrow> read_file (run_fs s1) q = read_file F1 q) \<and>
      (\<forall>n\<in>set dls. read_file (run_fs s1) (join_path d n) = served s n)"
    using download_fold [of d dls "\<lparr>run_fs = F1, run_server = s, run_problems = probs\<rparr>" V, folded s1_def]
      assms(2,3,5) dls del unfolding d_def [symmetric] by simp
  have bk: "same_scanned d (cl_fs C) F1"
    by (rule backup_conflicted_scanned [OF assms(4) F1])
  show "s' = s" "probs = []" "cl_dir C' = cl_dir C"
    using C' del dl by (simp_all add: d_def)
  show "read_file (cl_fs C') q = read_file (cl_fs C) q"
    if "scanned (cl_dir C) q" "q \<notin> join_path (cl_dir C) ` (set (to_download plan) \<union> set cds \<union>
       set (data_to_download resp) \<union> set (to_delete_local plan))"
    using that bk del dl C'(3) unfolding d_def [symmetric] dls [symmetric]
    by (simp add: same_scanned_def image_Un)
  show "read_file (cl_fs C') (join_path (cl_dir C) n) = None" if "n \<in> set (to_delete_local plan)"
    using that del C'(3) by (simp add: d_def)
  show "read_file (cl_fs C') (join_path (cl_dir C) n) = served s n"
    if "n \<in> set (to_download plan) \<union> set cds \<union> set (data_to_download resp)" "n \<notin> set (to_delete_local plan)"
  proof -
    have "n \<in> set dls" using that(1) dls by simp
    have "join_path d n \<notin> join_path d ` set (to_delete_local plan)"
      using valid_join_inj [of n _ d] that assms(5,6) by auto
    then show ?thesis using del dl C'(3) \<open>n \<in> set dls\<close> by (simp add: d_def)
  qed
qed

text \<open>A run without problems: every name of the plan ends with the same content on both sides, every
  other name keeps what it had.\<close>

lemma run_agrees:
  assumes "good s" and "proper (cl_dir C)"
    and "sound_plan (content_at (cl_dir C) (cl_fs C)) (served s) plan"
    and "\<forall>n\<in>set (plan_names plan). reach n"
    and run: "client_sync V R plan C s = ((C', s'), SyncDone [])"
  shows "good s'" "cl_dir C' = cl_dir C"
    "n \<in> set (plan_names plan) \<Longrightarrow> content_at (cl_dir C) (cl_fs C') n = served s' n"
    "valid_name n \<Longrightarrow> n \<notin> set (plan_names plan) \<Longrightarrow>
     content_at (cl_dir C) (cl_fs C') n = content_at (cl_dir C) (cl_fs C) n \<and> served s' n = served s n"
    "scanned (cl_dir C) q \<Longrightarrow> q \<notin> join_path (cl_dir C) ` {n. valid_name n} \<Longrightarrow>
     read_file (cl_fs C') q = read_file (cl_fs C) q"
proof -
  define d where "d = cl_dir C"
  obtain ups cds where pc: "fold (plan_conflict d (cl_fs C)) (conflicts plan) (to_upload plan, []) = (ups, cds)"
    by fastforce
  obtain send probs where ru: "fold (read_upload V d (cl_fs C)) ups ([], []) = (send, probs)" by fastforce
  from run pc ru obtain s1 resp where post: "post_commit R (to_delete_remote plan) (get_last_sync_commit C) send s =
      (s1, CommitReply resp)"
    and fin: "finish_sync V R plan cds probs resp C s1 = ((C', s'), SyncDone [])"
    by (auto simp: client_sync_def d_def [symmetric] split: prod.splits commit_reply.splits)
  define U X where "U = set (to_upload plan)" and "X = change_path ` set (conflicts plan)"
  note snd = assms(3) [unfolded sound_plan_def plan_names_def, folded d_def]
  have dis: "distinct (to_upload plan)" "distinct (map change_path (conflicts plan))" "X \<inter> U = {}"
    "set (to_delete_remote plan) \<inter> (U \<union> X) = {}" "set (to_delete_local plan) \<inter> (U \<union> X) = {}"
    "set (to_download plan) \<inter> (U \<union> X) = {}" "set (to_download plan) \<inter> set (to_delete_remote plan) = {}"
    "set (to_download plan) \<inter> set (to_delete_local plan) = {}"
    "set (to_delete_remote plan) \<inter> set (to_delete_local plan) = {}"
    using snd by (auto simp: U_def X_def)
  have valid: "\<forall>n\<in>set (plan_names plan). valid_name n \<and> reach n" using snd assms(4) by (simp add: plan_names_def)
  have pn: "set (plan_names plan) = U \<union> set (to_download plan) \<union> set (to_delete_remote plan) \<union>
      set (to_delete_local plan) \<union> X" by (auto simp: plan_names_def U_def X_def)
  have pcs: "U \<subseteq> set ups" "X \<subseteq> set ups \<union> set cds" "set ups \<union> set cds \<subseteq> U \<union> X" "distinct ups"
    "set ups \<inter> set cds = {}"
    using plan_conflicts_sets [OF pc] dis unfolding U_def X_def by auto
  have probs: "probs = []" by (rule finish_no_problems [OF fin])
  note up = read_uploads_all [OF ru [unfolded probs]]
  have fst: "map fst send = ups" using up by simp
  have req: "valid_request (to_delete_remote plan) send"
    using valid [unfolded pn] pcs dis(4) unfolding valid_request_def fst by blast
  have prom: "good s1" "commit_promise (served s) (served s1) (to_delete_remote plan) send resp"
    using post_contract [OF assms(1) req post] by simp_all
  note promise = prom(2) [unfolded commit_promise_def fst]
  have names: "\<forall>n\<in>set (to_download plan) \<union> set cds \<union> set (data_to_download resp). valid_name n \<and> reach n"
    "\<forall>n\<in>set (to_delete_local plan). valid_name n" "list_all clean_name (data_conflicts resp)"
  proof -
    have sub: "set cds \<union> set (data_to_download resp) \<union> set (data_conflicts resp) \<subseteq> U \<union> X"
      using promise pcs(3) by blast
    then show "\<forall>n\<in>set (to_download plan) \<union> set cds \<union> set (data_to_download resp). valid_name n \<and> reach n"
      "\<forall>n\<in>set (to_delete_local plan). valid_name n"
      using valid [unfolded pn] by blast+
    have "\<forall>n\<in>set (data_conflicts resp). valid_name n" using sub valid [unfolded pn] by blast
    then show "list_all clean_name (data_conflicts resp)" by (simp add: list_all_iff valid_name_def)
  qed
  note fr = finish_reads [OF fin prom(1) assms(2) names(3,1,2), folded d_def]
  define DL where "DL = set (to_download plan) \<union> set cds \<union> set (data_to_download resp)"
  have kept: "content_at d (cl_fs C') m = content_at d (cl_fs C) m"
    if "valid_name m" "m \<notin> DL \<union> set (to_delete_local plan)" for m
  proof -
    have "join_path d m \<notin> join_path d ` (DL \<union> set (to_delete_local plan))"
      using valid_join_inj [OF that(1), of _ d] that(2) names(1,2) unfolding DL_def by blast
    then show ?thesis
      using fr(4) [of "join_path d m"] scanned_join(1) [of m d] that(1)
      by (simp add: content_at_valid DL_def valid_name_def)
  qed
  show "good s'" "cl_dir C' = cl_dir C" using fr(1,3) prom(1) by (simp_all add: d_def)
  show "content_at (cl_dir C) (cl_fs C') n = served s' n" if "n \<in> set (plan_names plan)"
  proof -
    have v: "valid_name n" using snd that by (simp add: plan_names_def)
    have at: "content_at d F n = read_file F (join_path d n)" for F by (rule content_at_valid [OF v])
    show ?thesis
    proof (cases "n \<in> set (to_delete_local plan)")
      case True
      have "n \<notin> set (to_delete_remote plan) \<union> set ups" "served s n = None"
        using True snd pcs(3) dis(5,9) by blast+
      then show ?thesis using True fr(1,5) promise v at by (simp add: d_def)
    next
      case not_local: False
      show ?thesis
      proof (cases "n \<in> DL")
        case True
        then show ?thesis using fr(1,6) not_local at by (simp add: d_def DL_def)
      next
        case False
        have "content_at d (cl_fs C') n = content_at d (cl_fs C) n"
          by (rule kept [OF v]) (use False not_local in auto)
        moreover have "n \<in> set (to_delete_remote plan) \<or> n \<in> set ups"
          using that False not_local pcs(1,2) unfolding pn DL_def by blast
        moreover have "served s' n = None \<and> content_at d (cl_fs C) n = None" if "n \<in> set (to_delete_remote plan)"
          using that snd promise fr(1) by simp
        moreover have "served s' n = content_at d (cl_fs C) n" if sent: "n \<in> set ups"
        proof -
          obtain b where b: "(n, b) \<in> set send" using sent unfolding fst [symmetric] by auto
          then obtain lp where "is_safe_local_path d n = Some lp" "read_file (cl_fs C) lp = Some b"
            using up [THEN conjunct2, THEN conjunct2, rule_format, OF b] by auto
          then have "read_file (cl_fs C) (join_path d n) = Some b"
            using safe_local_valid [OF v, of d] assms(2) by (simp add: d_def)
          moreover have "n \<notin> set (data_to_download resp)" using False by (simp add: DL_def)
          then have "served s1 n = Some b" using promise b by blast
          ultimately show ?thesis using fr(1) at by simp
        qed
        ultimately show ?thesis by (auto simp: d_def)
      qed
    qed
  qed
  show "content_at (cl_dir C) (cl_fs C') n = content_at (cl_dir C) (cl_fs C) n \<and> served s' n = served s n"
    if "valid_name n" "n \<notin> set (plan_names plan)"
  proof -
    have "n \<notin> DL \<union> set (to_delete_local plan)" "n \<notin> set (to_delete_remote plan) \<union> set ups"
      using that(2) pcs(3) promise unfolding pn DL_def by blast+
    then show ?thesis using kept [OF that(1)] promise that(1) fr(1) by (simp add: d_def)
  qed
  show "read_file (cl_fs C') q = read_file (cl_fs C) q"
    if "scanned (cl_dir C) q" "q \<notin> join_path (cl_dir C) ` {n. valid_name n}"
    using that names(1,2) by (intro fr(4) [unfolded d_def]) auto
qed

end

end
