(* ===== verification/SyncSystem.thy ===== *)
theory SyncSystem
  imports CommitEffect ClientRun
begin

text \<open>
  Client and server together. The server of \<open>SyncCommit\<close> keeps the contract \<open>sync_server\<close> the client
  is verified against; what JSON encoding and URLs do on the way are the arguments \<open>dumps\<close> and
  \<open>route\<close>. The result is convergence: after a run without problems the next plan is empty.
\<close>

section \<open>The connection\<close>

definition commit_metadata :: "str list \<Rightarrow> str option \<Rightarrow> pyval" where
  "commit_metadata deleted c = PDict [(''deleted_files'', PList (map PStr deleted)),
     (''last_sync_commit'', case c of None \<Rightarrow> PNone | Some h \<Rightarrow> PStr h)]"

definition reply_of :: "commit_outcome \<Rightarrow> commit_reply" where
  "reply_of out = (case out of
     Committed r \<Rightarrow> CommitReply \<lparr>data_conflicts = map info_path (resp_conflicts r),
       data_to_download = resp_to_download r, data_commit_hash = commit_hash r\<rparr>
   | RolledBack (Http (HTTPException code _)) _ \<Rightarrow> CommitError code
   | _ \<Rightarrow> CommitError 500)"

definition system_remote ::
  "'g sync_env \<Rightarrow> str \<Rightarrow> (pyval \<Rightarrow> str) \<Rightarrow> (str \<Rightarrow> str) \<Rightarrow> 'g server remote" where
  "system_remote E username dumps route =
     \<lparr>post_commit = (\<lambda>deleted c ups S.
        let (S', out) = sync_commit E username (dumps (commit_metadata deleted c)) (map (\<lambda>(n, b). (Some n, b)) ups) S
        in (S', reply_of out)),
      get_file = (\<lambda>n S. (S, case sync_download S (route n) of
        Inl (HTTPException code _) \<Rightarrow> FileError code
      | Inr p \<Rightarrow> (case read_file (srv_fs S) p of Some b \<Rightarrow> FileReply b | None \<Rightarrow> FileError 500)))\<rparr>"

section \<open>The server keeps the contract\<close>

lemma parse_commit_metadata:
  "json_loads E t = Some (commit_metadata deleted c) \<Longrightarrow> parse_metadata E t = Inr (deleted, c)"
  by (cases c) (simp_all add: parse_metadata_def commit_metadata_def mget_def list_all_iff is_str_def comp_def)

lemma dset_new: "k \<notin> set (dkeys d) \<Longrightarrow> dset k v d = d @ [(k, v)]"
  by (induction d) auto

lemma read_uploads_distinct:
  "read_uploads (map (\<lambda>(n, b). (Some n, b)) ups) D = Inr D' \<Longrightarrow> distinct (dkeys D @ map fst ups) \<Longrightarrow> D' = D @ ups"
proof (induction ups arbitrary: D)
  case (Cons u ups)
  obtain n b where u: "u = (n, b)" by fastforce
  from Cons.prems u have "dset n b D = D @ [(n, b)]" by (intro dset_new) auto
  with Cons.prems u have "read_uploads (map (\<lambda>(n, b). (Some n, b)) ups) (D @ [(n, b)]) = Inr D'"
    by (simp split: if_splits)
  then have "D' = (D @ [(n, b)]) @ ups" by (rule Cons.IH) (use Cons.prems(2) u in auto)
  then show ?case by (simp add: u)
qed simp

lemma finish_commit_dir: "srv_dir (fst (finish_commit E u S s w)) = srv_dir S"
  by (auto simp: finish_commit_def Let_def manifest_phase_def cache_phase_def
      split: prod.splits option.splits call_result.splits)

lemma committed_dir:
  assumes "sync_commit E u meta ups S = (S', Committed r)"
  shows "srv_dir S' = srv_dir S"
proof -
  obtain M where M: "settle_commit E u S M = (S', Committed r)"
    using assms by (auto simp: sync_commit_def split: sum.splits)
  then obtain s w where s: "M = Inr (s, w)" using settle_commit_kept [OF M] by blast
  define S1 where "S1 = S\<lparr>srv_fs := cs_fs s, srv_tracker := recompute (env_io E) (cs_fs s) (srv_tracker S)\<rparr>"
  have "finish_commit E u S1 s w = (S', Committed r)"
    using M s by (auto simp: settle_commit_def S1_def roll_back_def Let_def split: if_splits prod.splits)
  then show ?thesis using finish_commit_dir [of E u S1 s w] by (simp add: S1_def)
qed

text \<open>The libraries and the file system behave: JSON reads back what it wrote, scanning and deleting
  do not fail.\<close>

definition calm :: "'g sync_env \<Rightarrow> (pyval \<Rightarrow> str) \<Rightarrow> bool" where
  "calm E dumps \<longleftrightarrow>
     (\<forall>del c. json_loads E (dumps (commit_metadata del c)) = Some (commit_metadata del c)) \<and> (\<forall>p. \<not> env_io E Unlink p) \<and>
     (\<forall>p. \<not> env_io E ScanFile p)"

definition good_server :: "'g sync_env \<Rightarrow> (pyval \<Rightarrow> str) \<Rightarrow> 'g server \<Rightarrow> bool" where
  "good_server E dumps S \<longleftrightarrow> calm E dumps \<and> proper (srv_dir S) \<and> proper_fs (srv_dir S) (srv_fs S)"

definition served :: "'g server \<Rightarrow> str \<Rightarrow> bytes option" where
  "served S n = content_at (srv_dir S) (srv_fs S) n"

lemma effect_promise:
  assumes "commit_effect d deleted ups F F' dl cf" and "\<forall>n\<in>set deleted \<union> set (map fst ups). valid_name n"
  shows "commit_promise (content_at d F) (content_at d F') deleted ups
    \<lparr>data_conflicts = cf, data_to_download = dl, data_commit_hash = h\<rparr>"
proof -
  have "content_at d F' n = content_at d F n"
    if "valid_name n" "n \<notin> set deleted \<union> set (map fst ups)" for n
  proof -
    have "join_path d n \<notin> join_path d ` (set deleted \<union> set (map fst ups))"
      using valid_join_inj [OF that(1), of _ d] that(2) assms(2) by blast
    then show ?thesis using assms(1) that(1) by (simp add: commit_effect_def content_at_valid)
  qed
  moreover have "content_at d F' n = None" if "n \<in> set deleted" for n
    using assms that by (simp add: commit_effect_def content_at_valid)
  moreover have "n \<in> set dl \<or> content_at d F' n = Some b" if "(n, b) \<in> set ups" for n b
  proof -
    have "valid_name n" using assms(2) that by force
    then show ?thesis using assms(1) that by (fastforce simp: commit_effect_def content_at_valid)
  qed
  moreover have "set dl \<subseteq> set (map fst ups)" "set cf \<subseteq> set (map fst ups)"
    using assms(1) by (auto simp: commit_effect_def)
  ultimately show ?thesis by (simp add: commit_promise_def)
qed

lemma effect_proper:
  assumes "commit_effect d deleted ups F F' dl cf" and "\<forall>n\<in>set deleted \<union> set (map fst ups). valid_name n"
    and "proper d" and "proper_fs d F"
  shows "proper_fs d F'"
proof (rule proper_fs_change [OF assms(4,3)])
  fix q assume "q \<notin> join_path d ` {n. valid_name n}"
  then have "q \<notin> join_path d ` (set deleted \<union> set (map fst ups))" using assms(2) by blast
  then show "read_file F' q = read_file F q" using assms(1) by (simp add: commit_effect_def)
qed

lemma system_post:
  assumes "good_server E dumps S" and "valid_request del ups"
    and "post_commit (system_remote E u dumps route) del c ups S = (S', CommitReply resp)"
  shows "good_server E dumps S' \<and> commit_promise (served S) (served S') del ups resp"
proof -
  let ?t = "dumps (commit_metadata del c)" and ?us = "map (\<lambda>(n, b). (Some n, b)) ups"
  obtain r where r: "sync_commit E u ?t ?us S = (S', Committed r)"
    and resp: "resp = \<lparr>data_conflicts = map info_path (resp_conflicts r),
       data_to_download = resp_to_download r, data_commit_hash = commit_hash r\<rparr>"
    using assms(3) by (auto simp: system_remote_def reply_of_def split: prod.splits commit_outcome.splits
        exn.splits http_error.splits)
  have calm: "json_loads E ?t = Some (commit_metadata del c)" "\<And>p. \<not> env_io E Unlink p"
    and d: "proper (srv_dir S)" "proper_fs (srv_dir S) (srv_fs S)"
    using assms(1) by (simp_all add: good_server_def calm_def)
  have meta: "parse_metadata E ?t = Inr (del, c)" by (rule parse_commit_metadata [OF calm(1)])
  obtain D where "read_uploads ?us [] = Inr D"
    using r meta by (auto simp: sync_commit_def split: sum.splits)
  then have ups: "read_uploads ?us [] = Inr ups"
    using read_uploads_distinct [of ups "[]" D] assms(2) by (simp add: valid_request_def)
  have names: "\<forall>n\<in>set del \<union> set (map fst ups). valid_name n" "distinct (dkeys ups)"
    "set del \<inter> set (dkeys ups) = {}" "list_all clean_name (del @ dkeys ups)"
    using assms(2) by (auto simp: valid_request_def valid_name_def list_all_iff)
  have eff: "commit_effect (srv_dir S) del ups (srv_fs S) (srv_fs S') (resp_to_download r)
      (map info_path (resp_conflicts r))"
    by (rule commit_contract [OF r meta ups proper_no_parent [OF d(1)] names(4,2,3) calm(2)])
  have dir: "srv_dir S' = srv_dir S" by (rule committed_dir [OF r])
  have "commit_promise (served S) (served S') del ups resp"
    unfolding served_def dir resp by (rule effect_promise [OF eff names(1)])
  moreover have "good_server E dumps S'"
    using assms(1) effect_proper [OF eff names(1) d] by (simp add: good_server_def dir)
  ultimately show ?thesis by blast
qed

interpretation system: sync_server "system_remote E u dumps route" served "good_server E dumps"
    "\<lambda>n. route n = n" for E u dumps route
proof unfold_locales
  show "s' = s" if "get_file (system_remote E u dumps route) n s = (s', r)" for n s s' r
    using that by (simp add: system_remote_def)
  show "served s n = Some b"
    if h: "good_server E dumps s" "valid_name n" "route n = n"
      "get_file (system_remote E u dumps route) n s = (s', FileReply b)" for n s s' b
  proof -
    obtain p where p: "sync_download s n = Inr p" "read_file (srv_fs s) p = Some b"
      using h(3,4) by (auto simp: system_remote_def split: sum.splits http_error.splits option.splits)
    then have "resolve_safe_path resolve_path (srv_dir s) n = Inr p"
      by (auto simp: sync_download_def split: sum.splits if_splits)
    then have "p = join_path (srv_dir s) n"
      using h(1,2) proper_no_parent resolve_safe_path_clean
      by (auto simp: good_server_def valid_name_def)
    with p(2) h(2) show ?thesis by (simp add: served_def content_at_valid)
  qed
  show "good_server E dumps s' \<and> commit_promise (served s) (served s') del ups resp"
    if "good_server E dumps s" "valid_request del ups"
      "post_commit (system_remote E u dumps route) del c ups s = (s', CommitReply resp)" for s del ups c s' resp
    using system_post that .
qed

section \<open>The plan of the server is sound\<close>

lemma plan_names_iff:
  "p \<in> set (plan_names (compute_sync_plan cm sm sc)) \<longleftrightarrow> hash_of cm p \<noteq> hash_of sc p"
proof (cases "p \<in> set (plan_paths cm sm sc)")
  case True
  have "p \<in> set (map change_path (concat (map (clash_of cm sm sc) (plan_paths cm sm sc)))) \<longleftrightarrow>
      (\<exists>k. decision_at cm sm sc p = Clash k)"
    using True unfolding conflict_paths by simp
  with True have "p \<in> set (plan_names (compute_sync_plan cm sm sc)) \<longleftrightarrow> decision_at cm sm sc p \<noteq> Keep"
    unfolding plan_names_def plan_eq_spec spec_plan_def
    by (cases "decision_at cm sm sc p") simp_all
  then show ?thesis by (auto simp: decision_at_def decide_def)
next
  case False
  then have "hash_of cm p = hash_of sc p"
  proof -
    have "dget cm p = None" "dget sc p = None"
      using False by (simp_all add: plan_paths_set dget_None_iff)
    then show ?thesis by (simp add: hash_of_def)
  qed
  moreover have "p \<notin> set (plan_names (compute_sync_plan cm sm sc))"
    using False by (auto simp: plan_names_def plan_eq_spec spec_plan_def clash_of_mem)
  ultimately show ?thesis by simp
qed

lemma plan_names_distinct: "distinct (plan_names (compute_sync_plan cm sm sc))"
proof -
  have "distinct (plan_paths cm sm sc)" by (rule plan_paths_sorted)
  then show ?thesis
    by (auto simp: plan_names_def plan_eq_spec spec_plan_def conflict_paths clash_of_mem)
qed

lemma plan_deletions:
  "p \<in> set (to_delete_remote (compute_sync_plan cm sm sc)) \<Longrightarrow> hash_of cm p = None"
  "p \<in> set (to_delete_local (compute_sync_plan cm sm sc)) \<Longrightarrow> hash_of sc p = None"
  by (auto simp: plan_eq_spec spec_plan_def decision_at_def decide_def split: if_splits)

text \<open>The manifest a client sends is the one the server plans with.\<close>

definition keyed :: "manifest \<Rightarrow> bool" where
  "keyed m \<longleftrightarrow> distinct (dkeys m) \<and> (\<forall>(k, e)\<in>set m. file_path e = k)"

lemma keyed_dset: "keyed m \<Longrightarrow> file_path e = k \<Longrightarrow> keyed (dset k e m)"
proof -
  assume m: "keyed m" and e: "file_path e = k"
  have "\<forall>(k', e')\<in>set (dset k e m). file_path e' = k'"
    using m e by (induction m) (auto simp: keyed_def)
  with m show "keyed (dset k e m)" by (simp add: keyed_def distinct_update)
qed

lemma keyed_scan: "keyed (scan_tree skip sha mt d F)"
proof -
  have "keyed (fold (scan_entry skip sha mt d F) ps m)" if "keyed m" for ps m
    using that by (induction ps arbitrary: m) (auto simp: scan_entry_def keyed_dset split: option.split)
  moreover have "keyed []" by (simp add: keyed_def)
  ultimately show ?thesis unfolding scan_tree_def by blast
qed

lemma keyed_fold:
  "keyed (m @ es) \<Longrightarrow> fold (\<lambda>e m. dset (file_path e) e m) (map snd es) m = m @ es"
proof (induction es arbitrary: m)
  case (Cons x es)
  obtain k e where x: "x = (k, e)" by fastforce
  with Cons.prems have "dset (file_path e) e m = m @ [(k, e)]"
    by (subst dset_new) (auto simp: keyed_def)
  with Cons x show ?case by simp
qed simp

text \<open>The plan the server answers the client's scan with.\<close>

definition status_plan :: "'g sync_env \<Rightarrow> client_env \<Rightarrow> client \<Rightarrow> 'g server \<Rightarrow> sync_plan option" where
  "status_plan E V C S =
     map_option (\<lambda>m. fst (snd (sync_status E (map snd m) S))) (scan_local_files V (cl_dir C) (cl_fs C))"

definition client_scan :: "client_env \<Rightarrow> client \<Rightarrow> manifest" where
  "client_scan V C = scan_tree (\<lambda>p. False) (cl_sha V) (cl_mtime V) (cl_dir C) (cl_fs C)"

definition server_scan_of :: "'g sync_env \<Rightarrow> 'g server \<Rightarrow> manifest" where
  "server_scan_of E S = scan_content_files E (srv_dir S) (srv_fs S)"

interpretation client_scan: content_scan "client_scan V" "\<lambda>C. content_at (cl_dir C) (cl_fs C)" "cl_sha V"
    "\<lambda>C. proper_fs (cl_dir C) (cl_fs C) \<and> proper (cl_dir C)" for V
  by unfold_locales (simp add: client_scan_def scan_tree_hash)

lemma client_scan_keyed: "fold (\<lambda>e m. dset (file_path e) e m) (map snd (client_scan V C)) [] = client_scan V C"
  using keyed_fold [of "[]" "client_scan V C"] keyed_scan by (simp add: client_scan_def)

lemma scan_local_calm:
  "(\<And>p. \<not> cl_io V ScanFile p) \<Longrightarrow> scan_local_files V (cl_dir C) (cl_fs C) = Some (client_scan V C)"
  by (simp add: scan_local_files_def client_scan_def list_ex_iff)

lemma status_plan_calm:
  assumes "\<And>p. \<not> cl_io V ScanFile p"
  shows "status_plan E V C S = Some (compute_sync_plan (client_scan V C) (srv_manifest S) (server_scan_of E S))"
proof -
  have "fst (snd (sync_status E (map snd (client_scan V C)) S)) =
      compute_sync_plan (client_scan V C) (srv_manifest S) (server_scan_of E S)"
    unfolding sync_status_def client_scan_keyed server_scan_of_def Let_def
    by (auto split: prod.split sum.split)
  then show ?thesis by (simp add: status_plan_def scan_local_calm [OF assms])
qed

text \<open>Both sides as the theorem wants them.\<close>

definition ready :: "'g sync_env \<Rightarrow> (pyval \<Rightarrow> str) \<Rightarrow> client_env \<Rightarrow> client \<Rightarrow> 'g server \<Rightarrow> bool" where
  "ready E dumps V C S \<longleftrightarrow> good_server E dumps S \<and> proper (cl_dir C) \<and> proper_fs (cl_dir C) (cl_fs C) \<and>
     (\<forall>p. \<not> cl_io V ScanFile p) \<and> cl_sha V = sha256 E"

lemma ready_hashes:
  assumes "ready E dumps V C S"
  shows "hash_of (client_scan V C) n = map_option (sha256 E) (content_at (cl_dir C) (cl_fs C) n)"
    "hash_of (server_scan_of E S) n = map_option (sha256 E) (served S n)"
  using assms client_scan.scan_hash [of C V n] server_scan.scan_hash [of "srv_dir S" "srv_fs S" E n]
  by (simp_all add: ready_def good_server_def calm_def server_scan_of_def served_def)

lemma ready_sound:
  assumes "ready E dumps V C S" and "plan = compute_sync_plan (client_scan V C) m (server_scan_of E S)"
  shows "sound_plan (content_at (cl_dir C) (cl_fs C)) (served S) plan"
proof -
  have "valid_name n" if "n \<in> set (plan_names plan)" for n
  proof (rule ccontr)
    assume "\<not> valid_name n"
    then have "hash_of (client_scan V C) n = hash_of (server_scan_of E S) n"
      by (simp add: ready_hashes [OF assms(1)] content_at_invalid served_def)
    with that assms(2) show False by (simp add: plan_names_iff)
  qed
  moreover have "content_at (cl_dir C) (cl_fs C) n = None" if "n \<in> set (to_delete_remote plan)" for n
    using plan_deletions(1) [OF that [unfolded assms(2)]] ready_hashes(1) [OF assms(1), of n] by simp
  moreover have "served S n = None" if "n \<in> set (to_delete_local plan)" for n
    using plan_deletions(2) [OF that [unfolded assms(2)]] ready_hashes(2) [OF assms(1), of n] by simp
  ultimately show ?thesis using plan_names_distinct assms(2) by (simp add: sound_plan_def)
qed

text \<open>The run of the client, seen through the hashes.\<close>

lemma run_idle:
  assumes ready: "ready E dumps V C S"
    and plan: "plan = compute_sync_plan (client_scan V C) (srv_manifest S) (server_scan_of E S)"
    and route: "\<forall>n\<in>set (plan_names plan). route n = n"
    and run: "client_sync V (system_remote E u dumps route) plan C S = ((C', S'), SyncDone [])"
  shows "ready E dumps V C' S' \<and> (\<forall>n. hash_of (client_scan V C') n = hash_of (server_scan_of E S') n)"
proof -
  have good: "good_server E dumps S" "proper (cl_dir C)" using ready by (simp_all add: ready_def)
  note agrees = system.run_agrees [OF good ready_sound [OF ready plan] route run]
  have "proper_fs (cl_dir C') (cl_fs C')"
    using proper_fs_change [of "cl_dir C" "cl_fs C" "cl_fs C'"] agrees(2,5) ready
    by (simp add: ready_def)
  then have ready': "ready E dumps V C' S'"
    using agrees(1,2) ready by (simp add: ready_def)
  have "hash_of (client_scan V C') n = hash_of (server_scan_of E S') n" for n
  proof (cases "valid_name n")
    case v: True
    show ?thesis
    proof (cases "n \<in> set (plan_names plan)")
      case True
      then show ?thesis by (simp add: ready_hashes [OF ready'] agrees(3) agrees(2))
    next
      case False
      then have "hash_of (client_scan V C) n = hash_of (server_scan_of E S) n"
        by (simp add: plan plan_names_iff)
      then show ?thesis
        using agrees(4) [OF v False] by (simp add: ready_hashes [OF ready'] ready_hashes [OF ready] agrees(2))
    qed
  qed (simp add: ready_hashes [OF ready'] content_at_invalid served_def)
  with ready' show ?thesis by blast
qed

section \<open>A small system\<close>

text \<open>An encoding of the commit's metadata, for the concrete run below.\<close>

fun mark :: "str \<Rightarrow> str" where
  "mark [] = ''.''"
| "mark (c # s) = CHR ''x'' # c # mark s"

fun unmark :: "str \<Rightarrow> str \<times> str" where
  "unmark (m # r) =
     (if m = CHR ''x'' then (case r of [] \<Rightarrow> ([], []) | c # r' \<Rightarrow> (let (s, rest) = unmark r' in (c # s, rest)))
      else ([], r))"
| "unmark [] = ([], [])"

fun unmarks :: "nat \<Rightarrow> str \<Rightarrow> str list" where
  "unmarks (Suc n) (c # r) = (let (s, rest) = unmark (c # r) in s # unmarks n rest)"
| "unmarks _ _ = []"

definition demo_dumps :: "pyval \<Rightarrow> str" where
  "demo_dumps v = (case v of
     PDict [(k, PList xs), (l, c)] \<Rightarrow>
       (case c of PStr h \<Rightarrow> mark ''y'' @ mark h | _ \<Rightarrow> mark []) @ concat (map (\<lambda>x. mark (the_str x)) xs)
   | _ \<Rightarrow> [])"

definition demo_loads :: "str \<Rightarrow> pyval option" where
  "demo_loads s = (case unmarks (length s) s of
     [] \<Rightarrow> None
   | t # r \<Rightarrow> Some (if t = [] then commit_metadata r None else commit_metadata (tl r) (Some (hd r))))"

lemma unmark_mark: "unmark (mark s @ r) = (s, r)"
  by (induction s) simp_all

lemma unmarks_marks: "length ss \<le> n \<Longrightarrow> unmarks n (concat (map mark ss)) = ss"
proof (induction ss arbitrary: n)
  case (Cons s ss)
  then obtain m where n: "n = Suc m" "length ss \<le> m" by (cases n) auto
  obtain c r where cr: "mark s = c # r" by (cases s) auto
  have "unmark (c # r @ concat (map mark ss)) = (s, concat (map mark ss))"
    using unmark_mark [of s "concat (map mark ss)"] by (simp add: cr)
  with n Cons.IH show ?case by (simp add: cr del: unmark.simps)
qed (cases n, simp_all)

lemma mark_length: "length ss \<le> length (concat (map mark ss))"
proof (induction ss)
  case (Cons s ss)
  then show ?case by (cases s) auto
qed simp

lemma demo_loads_dumps: "demo_loads (demo_dumps (commit_metadata del c)) = Some (commit_metadata del c)"
proof (cases c)
  case None
  have "demo_dumps (commit_metadata del c) = concat (map mark ([] # del))"
    using None by (simp add: demo_dumps_def commit_metadata_def comp_def)
  then show ?thesis
    using None unmarks_marks [OF mark_length, of "[] # del"] by (simp add: demo_loads_def)
next
  case (Some h)
  have "demo_dumps (commit_metadata del c) = concat (map mark (''y'' # h # del))"
    using Some by (simp add: demo_dumps_def commit_metadata_def comp_def)
  then show ?thesis
    using Some unmarks_marks [OF mark_length, of "''y'' # h # del"] by (simp add: demo_loads_def)
qed

definition demo_system :: "unit sync_env" where
  "demo_system = (demo_env PNone)\<lparr>json_loads := demo_loads\<rparr>"

definition demo_client_env :: client_env where
  "demo_client_env = \<lparr>cl_io = (\<lambda>op p. False), cl_sha = (\<lambda>b. b), cl_mtime = (\<lambda>p. []), cl_time = ''t''\<rparr>"

text \<open>The server has a new file and one of the last sync, the client has none: the first comes down,
  the second is deleted on the server.\<close>

definition demo_client :: client where
  "demo_client = \<lparr>cl_dir = [''k''], cl_fs = \<lparr>files = [], dirs = [[''k'']]\<rparr>, cl_config = Some [], cl_manifest = []\<rparr>"

definition demo_peer :: "unit server" where
  "demo_peer = demo_server\<lparr>
     srv_fs := \<lparr>files = [([''c'', ''assets'', ''a''], ''old''), ([''c'', ''assets'', ''b''], ''x'')],
       dirs = [[''c''], [''c'', ''assets'']]\<rparr>,
     srv_manifest := [(''assets/b'', \<lparr>file_path = ''assets/b'', content_hash = ''x'', file_size = 1, file_mtime = []\<rparr>)]\<rparr>"

definition demo_plan :: sync_plan where
  "demo_plan = \<lparr>to_upload = [], to_download = [''assets/a''], to_delete_remote = [''assets/b''],
     to_delete_local = [], conflicts = [], no_change = []\<rparr>"

lemma demo_status: "status_plan demo_system demo_client_env demo_client demo_peer = Some demo_plan"
  by code_simp

definition demo_run :: "(client \<times> unit server) \<times> sync_outcome" where
  "demo_run = client_sync demo_client_env (system_remote demo_system ''u'' demo_dumps (\<lambda>n. n)) demo_plan
     demo_client demo_peer"

lemma demo_run_done: "snd demo_run = SyncDone []"
  by code_simp

section \<open>Properties\<close>



text \<open>
  C19. Why a run must not lose a download: right after a commit that stored its manifest, a file the
  client does not have is planned for deletion on the server, and a file the client holds in
  another version is planned as an upload over the server's version. A download that fails after
  the commit therefore ends in the loss of the server's file or edit at the next run.
\<close>

theorem missed_download_is_undone:
  assumes "sync_commit E u metadata_json ups S = (S', Committed r)" and "manifest_update E = Returns ()"
    and "served_hash = hash_of (server_scan_of E S') n" and "served_hash \<noteq> None"
    and "hash_of m n \<noteq> served_hash"
  shows "n \<in> set ((if hash_of m n = None then to_delete_remote else to_upload)
    (compute_sync_plan m (srv_manifest S') (server_scan_of E S')))"
proof -
  have man: "srv_manifest S' = server_scan_of E S'"
    unfolding server_scan_of_def by (rule committed_manifest [OF assms(1,2)])
  have "n \<in> set (dkeys (server_scan_of E S'))"
    using assms(3,4) by (auto simp: hash_of_def dest: dget_Some_key)
  then have "n \<in> set (plan_paths m (srv_manifest S') (server_scan_of E S'))"
    by (simp add: plan_paths_set)
  moreover have "decision_at m (srv_manifest S') (server_scan_of E S') n =
      (if hash_of m n = None then DeleteRemote else Upload)"
    using assms(3-5) by (auto simp: decision_at_def decide_def man)
  ultimately show ?thesis by (simp add: plan_eq_spec spec_plan_def)
qed

theorem missed_download_is_undone_witness:
  "\<exists>S' r. sync_commit (demo_env (PDict [])) ''u'' ''{}'' [] demo_server = (S', Committed r) \<and>
     ''assets/a'' \<in> set (to_delete_remote
       (compute_sync_plan [] (srv_manifest S') (server_scan_of (demo_env (PDict [])) S')))"
proof -
  obtain S' r where c: "sync_commit (demo_env (PDict [])) ''u'' ''{}'' [] demo_server = (S', Committed r)"
    and fs: "srv_fs S' = srv_fs demo_server" "srv_dir S' = [''c'']"
    using demo_empty_commit by blast
  have h: "hash_of (server_scan_of (demo_env (PDict [])) S') ''assets/a'' = Some ''old''"
    by (simp add: server_scan_of_def fs demo_scan hash_of_def)
  have man: "manifest_update (demo_env (PDict [])) = Returns ()" by (simp add: demo_env_def)
  have none: "hash_of [] ''assets/a'' = None" by (simp add: hash_of_def)
  have "''assets/a'' \<in> set (to_delete_remote
      (compute_sync_plan [] (srv_manifest S') (server_scan_of (demo_env (PDict [])) S')))"
    using missed_download_is_undone [OF c man refl, of "''assets/a''" "[]"] unfolding h none by simp
  with c show ?thesis by blast
qed

end
