(* ===== verification/LabelConfig.thy ===== *)
theory LabelConfig
  imports FrontMatter ContentFs
begin

text \<open>
  \<^verbatim>\<open>backend/filesystem/toml_manager.py\<close>: reading and writing \<^verbatim>\<open>labels.toml\<close> and \<^verbatim>\<open>index.toml\<close>.
  The TOML reader and writer are parameters. A value the file may hold with any type stays a
  \<open>pyval\<close>; \<open>None\<close> as the result of a parse function is an exception that leaves the function.
\<close>

section \<open>labels.toml\<close>

record label_def =
  ld_id :: str
  ld_names :: pyval
  ld_parents :: "str list"
  ld_implicit :: bool

definition parse_label_def :: "externals \<Rightarrow> str \<Rightarrow> meta \<Rightarrow> label_def" where
  "parse_label_def X label_id label_info =
     (let raw_parent = mget label_info ''parent'';
          raw_parents = (case dget label_info ''parents'' of Some (PList ps) \<Rightarrow> ps | _ \<Rightarrow> []);
          unmark = (\<lambda>p. removeprefix (to_str X p) ''#'')
      in \<lparr>ld_id = label_id,
          ld_names = (case dget label_info ''names'' of None \<Rightarrow> PList [] | Some v \<Rightarrow> v),
          ld_parents = (if truthy raw_parent then [unmark raw_parent] else []) @ map unmark raw_parents,
          ld_implicit = False\<rparr>)"

fun parse_label_entries :: "externals \<Rightarrow> meta \<Rightarrow> label_def dict \<Rightarrow> label_def dict" where
  "parse_label_entries X [] result = result"
| "parse_label_entries X ((label_id, label_info) # entries) result =
     parse_label_entries X entries (case label_info of
       PDict d \<Rightarrow> dset label_id (parse_label_def X label_id d) result | _ \<Rightarrow> result)"

text \<open>\<open>read_text(encoding="utf-8")\<close>.\<close>

definition read_config_text :: "io_faults \<Rightarrow> fs \<Rightarrow> path \<Rightarrow> str option" where
  "read_config_text io F p =
     (if io ReadConfig p then None
      else map_option universal_newlines (Option.bind (read_file F p) decode_utf8))"

definition parse_labels_config :: "io_faults \<Rightarrow> externals \<Rightarrow> fs \<Rightarrow> path \<Rightarrow> label_def dict option" where
  "parse_labels_config io X F content_dir =
     (let labels_path = content_dir @ [''labels.toml''] in
      if \<not> path_exists F labels_path then Some []
      else (case Option.bind (read_config_text io F labels_path) (toml_labels X) of
              None \<Rightarrow> Some []
            | Some (PDict labels_data) \<Rightarrow> Some (parse_label_entries X labels_data [])
            | Some _ \<Rightarrow> None))"

text \<open>\<open>_atomic_write_bytes\<close>: a failure of \<open>mkstemp\<close>, of the write or of \<open>replace\<close> removes the
  temporary file again and leaves the target as it was.\<close>

definition atomic_write :: "io_faults \<Rightarrow> fs \<Rightarrow> path \<Rightarrow> bytes \<Rightarrow> fs option" where
  "atomic_write io F target data = write_file io AtomicWrite F target data"

definition label_entry_of :: "label_def \<Rightarrow> pyval" where
  "label_entry_of ld = PDict ([(''names'', ld_names ld)] @
     (case ld_parents ld of
        [] \<Rightarrow> []
      | [p] \<Rightarrow> [(''parent'', PStr (CHR ''#'' # p))]
      | ps \<Rightarrow> [(''parents'', PList (map (\<lambda>p. PStr (CHR ''#'' # p)) ps))]))"

definition serialize_labels_config :: "externals \<Rightarrow> label_def dict \<Rightarrow> bytes option" where
  "serialize_labels_config X labs =
     toml_dump_labels X (PDict (map (\<lambda>(label_id, ld). (label_id, label_entry_of ld)) labs))"

definition write_labels_config ::
  "io_faults \<Rightarrow> externals \<Rightarrow> fs \<Rightarrow> path \<Rightarrow> label_def dict \<Rightarrow> fs option" where
  "write_labels_config io X F content_dir labs =
     Option.bind (serialize_labels_config X labs) (atomic_write io F (content_dir @ [''labels.toml'']))"

section \<open>index.toml\<close>

text \<open>\<open>tomllib.loads\<close>, \<open>tomli_w.dumps\<close> and whether \<open>ZoneInfo\<close> knows a zone.\<close>

record site_externals =
  site_loads :: "str \<Rightarrow> meta option"
  site_dumps :: "meta \<Rightarrow> str option"
  zone_known :: "str \<Rightarrow> bool"

record page_config =
  page_id :: str
  page_title :: pyval
  page_file :: pyval

record site_config =
  site_title :: pyval
  site_description :: pyval
  site_timezone :: str
  site_favicon :: "str option"
  site_image :: "str option"
  site_pages :: "page_config list"

definition default_site_config :: site_config where
  "default_site_config = \<lparr>site_title = PStr ''My Blog'', site_description = PStr [],
     site_timezone = ''UTC'', site_favicon = None, site_image = None, site_pages = []\<rparr>"

definition with_pages :: "site_config \<Rightarrow> page_config list \<Rightarrow> site_config" where
  "with_pages cfg pages = cfg\<lparr>site_pages := pages\<rparr>"

text \<open>A page entry: \<open>BadConfig\<close> is the \<open>ValueError\<close> or \<open>TypeError\<close> the loop catches. The default
  title is computed even when there is a title, so an \<open>id\<close> that is no string raises.\<close>

datatype 'a parsed = Parsed 'a | BadConfig | Raises

definition parse_page :: "externals \<Rightarrow> pyval \<Rightarrow> page_config parsed" where
  "parse_page X page_data = (case page_data of
     PDict d \<Rightarrow>
       (case dget d ''id'' of
          None \<Rightarrow> BadConfig
        | Some (PStr i) \<Rightarrow> Parsed \<lparr>page_id = i,
            page_title = (case dget d ''title'' of None \<Rightarrow> PStr (str_title X i) | Some t \<Rightarrow> t),
            page_file = mget d ''file''\<rparr>
        | Some _ \<Rightarrow> Raises)
   | _ \<Rightarrow> BadConfig)"

fun parse_pages :: "externals \<Rightarrow> pyval list \<Rightarrow> page_config list parsed" where
  "parse_pages X [] = Parsed []"
| "parse_pages X (p # ps) = (case parse_page X p of
     Parsed page \<Rightarrow> (case parse_pages X ps of Parsed pages \<Rightarrow> Parsed (page # pages) | r \<Rightarrow> r)
   | BadConfig \<Rightarrow> BadConfig
   | Raises \<Rightarrow> Raises)"

text \<open>What a \<open>for\<close> loop over the value of \<open>pages\<close> runs over; a number or a date is a \<open>TypeError\<close>.\<close>

definition page_items :: "pyval \<Rightarrow> pyval list option" where
  "page_items v = (case v of
     PList ps \<Rightarrow> Some ps
   | PDict d \<Rightarrow> Some (map (\<lambda>(k, x). PStr k) d)
   | PStr s \<Rightarrow> Some (map PStr (code_points s))
   | _ \<Rightarrow> None)"

definition safe_asset_rel :: "pyval \<Rightarrow> str option" where
  "safe_asset_rel v = (case v of
     PStr s \<Rightarrow>
       (if s = [] then None
        else
          let parts = split_on (CHR ''/'') (map (\<lambda>c. if c = CHR 0x5C then CHR ''/'' else c) s) in
          if startswith s ''/'' \<or> ''..'' \<in> set parts then None else Some s)
   | _ \<Rightarrow> None)"

definition site_of_data :: "externals \<Rightarrow> site_externals \<Rightarrow> meta \<Rightarrow> site_config option" where
  "site_of_data X S data =
     (case (case dget data ''pages'' of None \<Rightarrow> Some [] | Some v \<Rightarrow> page_items v) of
        None \<Rightarrow> Some default_site_config
      | Some items \<Rightarrow>
     (case parse_pages X items of
        BadConfig \<Rightarrow> Some default_site_config
      | Raises \<Rightarrow> None
      | Parsed pages \<Rightarrow>
     (case (case dget data ''site'' of None \<Rightarrow> PDict [] | Some v \<Rightarrow> v) of
        PDict site_data \<Rightarrow>
          (let get = (\<lambda>k default. case dget site_data k of None \<Rightarrow> default | Some v \<Rightarrow> v) in
           Some \<lparr>site_title = get ''title'' (PStr ''My Blog''),
                 site_description = get ''description'' (PStr []),
                 site_timezone = (case get ''timezone'' (PStr ''UTC'') of
                     PStr z \<Rightarrow> if zone_known S z then z else ''UTC'' | _ \<Rightarrow> ''UTC''),
                 site_favicon = safe_asset_rel (mget site_data ''favicon''),
                 site_image = safe_asset_rel (mget site_data ''image''),
                 site_pages = pages\<rparr>)
      | _ \<Rightarrow> None)))"

definition parse_site_config ::
  "io_faults \<Rightarrow> externals \<Rightarrow> site_externals \<Rightarrow> fs \<Rightarrow> path \<Rightarrow> site_config option" where
  "parse_site_config io X S F content_dir =
     (let index_path = content_dir @ [''index.toml''] in
      if \<not> path_exists F index_path then Some default_site_config
      else (case Option.bind (read_config_text io F index_path) (site_loads S) of
              None \<Rightarrow> Some default_site_config
            | Some data \<Rightarrow> site_of_data X S data))"

definition page_entry_of :: "page_config \<Rightarrow> pyval" where
  "page_entry_of p = PDict ([(''id'', PStr (page_id p)), (''title'', page_title p)] @
     (if page_file p \<noteq> PNone then [(''file'', page_file p)] else []))"

definition serialize_site_config :: "site_externals \<Rightarrow> site_config \<Rightarrow> bytes option" where
  "serialize_site_config S cfg = site_dumps S
     [(''site'', PDict ([(''title'', site_title cfg), (''description'', site_description cfg),
        (''timezone'', PStr (site_timezone cfg))] @
        (case site_favicon cfg of Some f \<Rightarrow> [(''favicon'', PStr f)] | None \<Rightarrow> []) @
        (case site_image cfg of Some i \<Rightarrow> [(''image'', PStr i)] | None \<Rightarrow> []))),
      (''pages'', PList (map page_entry_of (site_pages cfg)))]"

definition write_site_config ::
  "io_faults \<Rightarrow> site_externals \<Rightarrow> fs \<Rightarrow> path \<Rightarrow> site_config \<Rightarrow> fs option" where
  "write_site_config io S F content_dir cfg =
     Option.bind (serialize_site_config S cfg) (atomic_write io F (content_dir @ [''index.toml'']))"

section \<open>Round trips\<close>

text \<open>What the code relies on: reading back a text that the TOML writer produced gives the value
  that was written. The writer emits valid UTF-8 with bare newlines.\<close>

definition rereads :: "(str \<Rightarrow> 'v option) \<Rightarrow> ('v \<Rightarrow> str option) \<Rightarrow> bool" where
  "rereads loads dumps \<longleftrightarrow> (\<forall>v t. dumps v = Some t \<longrightarrow>
     loads t = Some v \<and> decode_utf8 t = Some t \<and> universal_newlines t = t)"

text \<open>The definitions a parse can give: filed under their own name, explicit.\<close>

definition own_entries :: "label_def dict \<Rightarrow> bool" where
  "own_entries labs \<longleftrightarrow> distinct (dkeys labs) \<and> (\<forall>(k, ld)\<in>set labs. ld_id ld = k \<and> \<not> ld_implicit ld)"

lemma removeprefix_mark [simp]: "removeprefix (CHR ''#'' # p) ''#'' = p"
  by (simp add: removeprefix_def)

lemma parse_entry_of:
  assumes "ld_id ld = k" "\<not> ld_implicit ld"
  shows "\<exists>d. label_entry_of ld = PDict d \<and> parse_label_def X k d = ld"
proof -
  consider "ld_parents ld = []" | p where "ld_parents ld = [p]" | p q ps where "ld_parents ld = p # q # ps"
    by (cases "ld_parents ld" rule: remdups_adj.cases) auto
  then show ?thesis
    by cases (cases ld; use assms in \<open>auto simp: label_entry_of_def parse_label_def_def mget_def
      to_str_def Let_def comp_def\<close>)+
qed

lemma dset_append: "k \<notin> set (dkeys d) \<Longrightarrow> dset k v d = d @ [(k, v)]"
  by (induction d) auto

lemma parse_entries_of:
  assumes "own_entries labs" "set (dkeys result) \<inter> set (dkeys labs) = {}"
  shows "parse_label_entries X (map (\<lambda>(k, ld). (k, label_entry_of ld)) labs) result = result @ labs"
  using assms
proof (induction labs arbitrary: result)
  case (Cons e labs)
  obtain k ld where e: "e = (k, ld)" by (cases e)
  obtain d where d: "label_entry_of ld = PDict d" "parse_label_def X k d = ld"
    using parse_entry_of [of ld k X] Cons.prems(1) e by (auto simp: own_entries_def)
  have "parse_label_entries X (map (\<lambda>(k, ld). (k, label_entry_of ld)) labs) (result @ [(k, ld)]) =
      (result @ [(k, ld)]) @ labs"
    using Cons.prems e by (intro Cons.IH) (auto simp: own_entries_def)
  then show ?case
    using Cons.prems(2) by (simp add: e d dset_append)
qed simp

lemma read_after_write:
  assumes "atomic_write io F p b = Some F'" "\<not> io ReadConfig p" "decode_utf8 b = Some b" "universal_newlines b = b"
  shows "read_config_text io F' p = Some b" "path_exists F' p"
  using assms read_write_file [of io AtomicWrite F p b F' p]
  by (simp_all add: atomic_write_def read_config_text_def path_exists_def is_file_def)

lemma labels_roundtrip:
  assumes toml: "rereads (toml_labels X) (toml_dump_labels X)" and own: "own_entries labs"
    and written: "write_labels_config io X F content_dir labs = Some F'"
    and readable: "\<not> io ReadConfig (content_dir @ [''labels.toml''])"
  shows "parse_labels_config io X F' content_dir = Some labs"
proof -
  let ?v = "PDict (map (\<lambda>(k, ld). (k, label_entry_of ld)) labs)"
  obtain t where t: "toml_dump_labels X ?v = Some t"
      and F': "atomic_write io F (content_dir @ [''labels.toml'']) t = Some F'"
    using written by (auto simp: write_labels_config_def serialize_labels_config_def bind_eq_Some_conv)
  have again: "toml_labels X t = Some ?v" "decode_utf8 t = Some t" "universal_newlines t = t"
    using toml t by (auto simp: rereads_def)
  note read = read_after_write [OF F' readable again(2,3)]
  show ?thesis
    using parse_entries_of [OF own, of "[]" X] by (simp add: parse_labels_config_def read again(1))
qed

text \<open>The configurations a parse can give: a known zone and asset paths that are safe.\<close>

definition own_site :: "site_externals \<Rightarrow> site_config \<Rightarrow> bool" where
  "own_site S cfg \<longleftrightarrow> zone_known S (site_timezone cfg) \<and>
     (\<forall>f. site_favicon cfg = Some f \<longrightarrow> safe_asset_rel (PStr f) = Some f) \<and>
     (\<forall>f. site_image cfg = Some f \<longrightarrow> safe_asset_rel (PStr f) = Some f)"

lemma parse_page_entry: "parse_page X (page_entry_of p) = Parsed p"
  by (cases p) (simp add: parse_page_def page_entry_of_def mget_def)

lemma parse_page_entries: "parse_pages X (map page_entry_of ps) = Parsed ps"
  by (induction ps) (simp_all add: parse_page_entry)

lemma site_roundtrip:
  assumes toml: "rereads (site_loads S) (site_dumps S)" and own: "own_site S cfg"
    and written: "write_site_config io S F content_dir cfg = Some F'"
    and readable: "\<not> io ReadConfig (content_dir @ [''index.toml''])"
  shows "parse_site_config io X S F' content_dir = Some cfg"
proof -
  let ?site = "PDict ([(''title'', site_title cfg), (''description'', site_description cfg),
      (''timezone'', PStr (site_timezone cfg))] @
      (case site_favicon cfg of Some f \<Rightarrow> [(''favicon'', PStr f)] | None \<Rightarrow> []) @
      (case site_image cfg of Some i \<Rightarrow> [(''image'', PStr i)] | None \<Rightarrow> []))"
  let ?v = "[(''site'', ?site), (''pages'', PList (map page_entry_of (site_pages cfg)))]"
  obtain t where t: "site_dumps S ?v = Some t"
      and F': "atomic_write io F (content_dir @ [''index.toml'']) t = Some F'"
    using written by (auto simp: write_site_config_def serialize_site_config_def bind_eq_Some_conv)
  have again: "site_loads S t = Some ?v" "decode_utf8 t = Some t" "universal_newlines t = t"
    using toml t by (auto simp: rereads_def)
  note read = read_after_write [OF F' readable again(2,3)]
  have "safe_asset_rel PNone = None" by (simp add: safe_asset_rel_def)
  then have "site_of_data X S ?v = Some cfg"
    using own by (cases cfg) (auto simp: site_of_data_def page_items_def parse_page_entries
      mget_def own_site_def Let_def split: option.split)
  then show ?thesis by (simp add: parse_site_config_def read again(1))
qed

section \<open>Asset paths\<close>

lemma split_on_two: "b \<noteq> c \<Longrightarrow>
    split_on c (map (\<lambda>x. if x = b then c else x) s) = concat (map (split_on b) (split_on c s))"
proof (induction s)
  case (Cons x s)
  obtain h t where "split_on c s = h # t" by (cases "split_on c s") auto
  with Cons show ?case by (auto simp: tl_append split: list.split)
qed simp

lemma safe_asset_no_parent:
  assumes "safe_asset_rel v = Some s" shows "''..'' \<notin> set (path_parts s)" "\<not> startswith s ''/''"
proof -
  let ?f = "\<lambda>c. if c = CHR 0x5C then CHR ''/'' else c"
  have s: "\<not> startswith s ''/''" "''..'' \<notin> set (split_on (CHR ''/'') (map ?f s))"
    using assms by (auto simp: safe_asset_rel_def Let_def split: pyval.splits if_splits)
  moreover have "split_on (CHR 0x5C) ''..'' = [''..'']" by simp
  ultimately show "''..'' \<notin> set (path_parts s)" "\<not> startswith s ''/''"
    by (force simp: split_on_two path_parts_def)+
qed

section \<open>Properties\<close>

definition small_labels :: "label_def dict" where
  "small_labels =
     [(''a'', \<lparr>ld_id = ''a'', ld_names = PList [PStr ''A''], ld_parents = [''b'', ''c''], ld_implicit = False\<rparr>),
      (''b'', \<lparr>ld_id = ''b'', ld_names = PList [], ld_parents = [''#''], ld_implicit = False\<rparr>)]"

definition echo_externals :: "pyval \<Rightarrow> externals" where
  "echo_externals v = \<lparr>fm_loads = (\<lambda>s. None), fm_dumps = (\<lambda>m b. YamlError),
     toml_labels = (\<lambda>s. if s = ''t'' then Some v else None),
     toml_dump_labels = (\<lambda>w. if w = v then Some ''t'' else None), git_merge_file = (\<lambda>b s c. RunTimeout),
     pendulum_parse = (\<lambda>s tz. PendError), pendulum_offset = (\<lambda>tz t. 0),
     str_title = (\<lambda>s. s), py_str = (\<lambda>v. [])\<rparr>"




definition small_site :: site_config where
  "small_site = default_site_config\<lparr>site_favicon := Some ''assets/icon.png'', site_pages :=
     [\<lparr>page_id = ''about'', page_title = PStr ''About'', page_file = PStr ''about.md''\<rparr>]\<rparr>"


text \<open>C29. An asset path the parser lets through stays under the content directory.\<close>

theorem asset_stays_inside:
  assumes "safe_asset_rel v = Some s" and "''..'' \<notin> set content_dir"
  shows "\<exists>rel. resolve_path (join_path content_dir s) = content_dir @ rel \<and> ''..'' \<notin> set rel"
proof -
  note s = safe_asset_no_parent [OF assms(1)]
  show ?thesis
    using s assms(2) by (auto simp: join_path_def resolve_no_parent)
qed

theorem asset_stays_inside_witness:
  "\<exists>rel. resolve_path (join_path [''srv''] ''img/..x.png'') = [''srv''] @ rel \<and> ''..'' \<notin> set rel"
  by (rule asset_stays_inside [of "PStr ''img/..x.png''"]) code_simp+

text \<open>A page whose \<open>id\<close> is no string, or a \<open>site\<close> entry that is no table, makes parsing
  \<^verbatim>\<open>index.toml\<close> raise instead of falling back to the defaults.\<close>

theorem bad_site_config_raises:
  "site_of_data X S [(''pages'', PList [PDict [(''id'', PInt n), (''title'', PStr t)]])] = None \<and>
   site_of_data X S [(''site'', PStr t)] = None"
  by (simp add: site_of_data_def page_items_def parse_page_def)

end
