(* ===== verification/LabelDag.thy ===== *)
theory LabelDag
  imports Prelude "HOL-Library.Multiset"
begin

text \<open>
  \<^verbatim>\<open>services/dag.py\<close>: the depth-first search that makes the label hierarchy acyclic. Edges are
  (child, parent) pairs. The search walks the set of nodes in Python's iteration order for sets,
  which is not specified; it is the argument \<open>order\<close>, and the results hold for every order.
\<close>

type_synonym edge = "str \<times> str"

datatype color = WHITE | GRAY | BLACK

text \<open>The stack has its top first; an entry holds a node and the index of the next parent to visit.
  Every node has a colour, so the dictionary of colours is a function.\<close>

record dfs =
  color_of :: "str \<Rightarrow> color"
  dfs_stack :: "(str \<times> nat) list"
  accepted :: "edge list"
  dropped :: "edge list"

definition add_neighbour :: "edge \<Rightarrow> str list dict \<Rightarrow> str list dict" where
  "add_neighbour = (\<lambda>(child, parent) adj.
     dset child ((case dget adj child of None \<Rightarrow> [] | Some ps \<Rightarrow> ps) @ [parent]) adj)"

definition adjacency :: "edge list \<Rightarrow> str list dict" where
  "adjacency edges = fold add_neighbour edges []"

definition parents_of :: "str list dict \<Rightarrow> str \<Rightarrow> str list" where
  "parents_of adj n = (case dget adj n of None \<Rightarrow> [] | Some ps \<Rightarrow> ps)"

definition edge_nodes :: "edge list \<Rightarrow> str list" where
  "edge_nodes edges = map fst edges @ map snd edges"

text \<open>One round of the inner loop.\<close>

definition dfs_step :: "str list dict \<Rightarrow> dfs \<Rightarrow> dfs" where
  "dfs_step adj s = (case dfs_stack s of
     [] \<Rightarrow> s
   | (node, idx) # below \<Rightarrow>
       (let parents = parents_of adj node in
        if idx < length parents then
          (let parent = parents ! idx; s1 = s\<lparr>dfs_stack := (node, Suc idx) # below\<rparr> in
           case color_of s parent of
             GRAY \<Rightarrow> s1\<lparr>dropped := dropped s @ [(node, parent)]\<rparr>
           | WHITE \<Rightarrow> s1\<lparr>accepted := accepted s @ [(node, parent)],
               color_of := (color_of s)(parent := GRAY),
               dfs_stack := (parent, 0) # (node, Suc idx) # below\<rparr>
           | BLACK \<Rightarrow> s1\<lparr>accepted := accepted s @ [(node, parent)]\<rparr>)
        else s\<lparr>color_of := (color_of s)(node := BLACK), dfs_stack := below\<rparr>))"

text \<open>The work left: parents not yet looked at on the stack, and nodes still white.\<close>

definition white_nodes :: "str list dict \<Rightarrow> dfs \<Rightarrow> str set" where
  "white_nodes adj s = {n \<in> set (concat (map snd adj)). color_of s n = WHITE}"

definition dfs_work :: "str list dict \<Rightarrow> dfs \<Rightarrow> nat" where
  "dfs_work adj s = (\<Sum>n\<in>white_nodes adj s. length (parents_of adj n) + 2) +
     (\<Sum>(n, i)\<leftarrow>dfs_stack s. length (parents_of adj n) - i + 1)"

lemma finite_white [simp]: "finite (white_nodes adj s)"
  by (simp add: white_nodes_def)

lemma parents_of_nodes: "p \<in> set (parents_of adj n) \<Longrightarrow> p \<in> set (concat (map snd adj))"
  using map_of_SomeD [of adj n] by (force simp: parents_of_def split: option.splits)

lemma white_nodes_gray:
  assumes "color_of s p = WHITE" "p \<in> set (concat (map snd adj))"
    "color_of t = (color_of s)(p := GRAY)"
  shows "white_nodes adj s = insert p (white_nodes adj t)" "p \<notin> white_nodes adj t"
  using assms by (auto simp: white_nodes_def)

lemma dfs_step_less:
  assumes "dfs_stack s \<noteq> []" shows "dfs_work adj (dfs_step adj s) < dfs_work adj s"
proof -
  obtain node idx below where st: "dfs_stack s = (node, idx) # below"
    using assms by (cases "dfs_stack s") auto
  let ?ps = "parents_of adj node"
  show ?thesis
  proof (cases "idx < length ?ps")
    case False
    have "white_nodes adj (dfs_step adj s) \<subseteq> white_nodes adj s"
      using False by (auto simp: white_nodes_def dfs_step_def st)
    then have "(\<Sum>n\<in>white_nodes adj (dfs_step adj s). length (parents_of adj n) + 2)
        \<le> (\<Sum>n\<in>white_nodes adj s. length (parents_of adj n) + 2)"
      by (rule sum_mono2 [OF finite_white]) simp
    then show ?thesis using False by (simp add: dfs_work_def dfs_step_def st)
  next
    case True
    let ?p = "?ps ! idx"
    have node: "?p \<in> set (concat (map snd adj))" using True by (intro parents_of_nodes [of _ adj node]) simp
    show ?thesis
    proof (cases "color_of s ?p")
      case WHITE
      let ?t = "dfs_step adj s"
      have "color_of ?t = (color_of s)(?p := GRAY)"
        using True WHITE by (simp add: dfs_step_def st Let_def)
      note w = white_nodes_gray [OF WHITE node this]
      have "(\<Sum>n\<in>white_nodes adj s. length (parents_of adj n) + 2) =
          length (parents_of adj ?p) + 2 + (\<Sum>n\<in>white_nodes adj ?t. length (parents_of adj n) + 2)"
        using w(2) unfolding w(1) by (simp add: sum.insert)
      moreover have "dfs_stack ?t = (?p, 0) # (node, Suc idx) # below"
        using True WHITE by (simp add: dfs_step_def st Let_def)
      ultimately show ?thesis using True by (simp add: dfs_work_def st)
    qed (use True in \<open>simp_all add: dfs_work_def dfs_step_def white_nodes_def st\<close>)
  qed
qed

function dfs_loop :: "str list dict \<Rightarrow> dfs \<Rightarrow> dfs" where
  "dfs_loop adj s = (if dfs_stack s = [] then s else dfs_loop adj (dfs_step adj s))"
  by pat_completeness auto

termination
  by (relation "measure (\<lambda>(adj, s). dfs_work adj s)") (auto simp: dfs_step_less)

declare dfs_loop.simps [simp del]

definition visit :: "str list dict \<Rightarrow> str \<Rightarrow> dfs \<Rightarrow> dfs" where
  "visit adj start s =
     (if color_of s start \<noteq> WHITE then s
      else dfs_loop adj (s\<lparr>dfs_stack := [(start, 0)], color_of := (color_of s)(start := GRAY)\<rparr>))"

definition break_cycles :: "str list \<Rightarrow> edge list \<Rightarrow> edge list \<times> edge list" where
  "break_cycles order edges =
     (let s = fold (visit (adjacency edges)) order
                \<lparr>color_of = (\<lambda>n. WHITE), dfs_stack = [], accepted = [], dropped = []\<rparr>
      in (accepted s, dropped s))"

section \<open>The edges of a node\<close>

lemma parents_of_add:
  "parents_of (add_neighbour e adj) n = parents_of adj n @ (if fst e = n then [snd e] else [])"
  by (cases e) (auto simp: add_neighbour_def parents_of_def split: option.splits)

lemma parents_of_fold:
  "parents_of (fold add_neighbour edges adj) n = parents_of adj n @ map snd (filter (\<lambda>e. fst e = n) edges)"
  by (induction edges arbitrary: adj) (auto simp: parents_of_add)

lemma parents_of_adjacency: "parents_of (adjacency edges) n = map snd (filter (\<lambda>e. fst e = n) edges)"
  unfolding adjacency_def parents_of_fold by (simp add: parents_of_def)

lemma Pair_parents_of: "map (Pair n) (parents_of (adjacency edges) n) = filter (\<lambda>e. fst e = n) edges"
  unfolding parents_of_adjacency map_map by (rule map_idI) auto

lemma edges_by_child:
  assumes "distinct ns" "fst ` set edges \<subseteq> set ns"
  shows "mset (concat (map (\<lambda>n. filter (\<lambda>e. fst e = n) edges) ns)) = mset edges"
  using assms
proof (induction ns arbitrary: edges)
  case (Cons n ns)
  let ?rest = "filter (\<lambda>e. fst e \<noteq> n) edges"
  have "map (\<lambda>m. filter (\<lambda>e. fst e = m) edges) ns = map (\<lambda>m. filter (\<lambda>e. fst e = m) ?rest) ns"
    using Cons.prems(1) by (auto intro!: map_cong filter_cong)
  moreover have "mset (concat (map (\<lambda>m. filter (\<lambda>e. fst e = m) ?rest) ns)) = mset ?rest"
    using Cons.prems by (intro Cons.IH) auto
  ultimately have "mset (concat (map (\<lambda>m. filter (\<lambda>e. fst e = m) edges) ns)) = mset ?rest"
    by argo
  then show ?case
    using multiset_partition [of "mset edges" "\<lambda>e. fst e = n"] by (simp add: mset_filter)
qed simp

section \<open>The invariant of the search\<close>

lemma subseq_insert: "subseq zs (xs @ ys) \<Longrightarrow> subseq zs (xs @ p # ys)"
  by (meson list_emb_Cons list_emb_append_mono subseq_order.order_refl subseq_order.trans)

lemma subseq_pair: "a \<in> set xs \<Longrightarrow> subseq [a, b] (xs @ b # ys)"
  using list_emb_append_mono [of "(=)" "[a]" xs "[b]" "b # ys"] by (simp add: subseq_singleton_left)

lemma subseq_position:
  "subseq [a, b] xs \<Longrightarrow> distinct xs \<Longrightarrow>
     length (takeWhile (\<lambda>x. x \<noteq> a) xs) < length (takeWhile (\<lambda>x. x \<noteq> b) xs)"
proof (induction xs)
  case (Cons x xs)
  then show ?case
    using list_emb_set [of "(=)" "[a, b]" xs b] by (auto simp: subseq_singleton_left split: if_splits)
qed simp

lemma backwards_acyclic:
  assumes "distinct xs" "\<forall>(u, v)\<in>E. subseq [v, u] xs" shows "acyclic E"
  by (rule acyclicI_order [of E "\<lambda>u. length (takeWhile (\<lambda>x. x \<noteq> u) xs)"])
     (use assms subseq_position in fastforce)


text \<open>\<open>fin\<close> are the black nodes in the order they were finished. In \<open>fin\<close> followed by the stack,
  every accepted edge points backwards, so that list is a topological order.\<close>

definition colored :: "str list \<Rightarrow> dfs \<Rightarrow> bool" where
  "colored fin s \<longleftrightarrow> distinct (fin @ map fst (dfs_stack s)) \<and>
     (\<forall>n. color_of s n = BLACK \<longleftrightarrow> n \<in> set fin) \<and>
     (\<forall>n. color_of s n = GRAY \<longleftrightarrow> n \<in> fst ` set (dfs_stack s))"

definition backwards :: "str list \<Rightarrow> dfs \<Rightarrow> bool" where
  "backwards fin s \<longleftrightarrow> (\<forall>(u, v)\<in>set (accepted s). subseq [v, u] (fin @ map fst (dfs_stack s)))"

definition chained :: "dfs \<Rightarrow> bool" where
  "chained s \<longleftrightarrow> sorted_wrt (\<lambda>a b. (b, a) \<in> (set (accepted s))\<^sup>+) (map fst (dfs_stack s))"

definition closing :: "dfs \<Rightarrow> bool" where
  "closing s \<longleftrightarrow> (\<forall>(u, v)\<in>set (dropped s). (v, u) \<in> (set (accepted s))\<^sup>*)"

definition counted :: "str list dict \<Rightarrow> str list \<Rightarrow> dfs \<Rightarrow> bool" where
  "counted adj fin s \<longleftrightarrow> mset (accepted s) + mset (dropped s) =
     mset (concat (map (\<lambda>n. map (Pair n) (parents_of adj n)) fin)) +
     mset (concat (map (\<lambda>(n, i). map (Pair n) (take i (parents_of adj n))) (dfs_stack s)))"

lemmas search_defs = colored_def backwards_def chained_def closing_def counted_def

definition search_inv :: "str list dict \<Rightarrow> str list \<Rightarrow> dfs \<Rightarrow> bool" where
  "search_inv adj fin s \<longleftrightarrow>
     colored fin s \<and> backwards fin s \<and> chained s \<and> closing s \<and> counted adj fin s"

lemma take_next: "i < length xs \<Longrightarrow> take (Suc i) xs = take i xs @ [xs ! i]"
  by (rule take_Suc_conv_app_nth)

lemma trancl_insert_mono: "p \<in> E\<^sup>+ \<Longrightarrow> p \<in> (insert e E)\<^sup>+"
  by (erule trancl_mono) auto

lemma rtrancl_insert_mono: "p \<in> E\<^sup>* \<Longrightarrow> p \<in> (insert e E)\<^sup>*"
  by (rule rtrancl_mono [THEN subsetD]) auto

lemma sorted_insert_mono:
  "sorted_wrt (\<lambda>a b. (b, a) \<in> E\<^sup>+) xs \<Longrightarrow> sorted_wrt (\<lambda>a b. (b, a) \<in> (insert e E)\<^sup>+) xs"
  by (erule sorted_wrt_mono_rel [rotated]) (rule trancl_insert_mono)

lemma step_gray:
  assumes st: "dfs_stack s = (node, idx) # below"
    and idx: "idx < length (parents_of adj node)" and "color_of s (parents_of adj node ! idx) = GRAY"
    and inv: "search_inv adj fin s"
  shows "search_inv adj fin (dfs_step adj s)"
proof -
  let ?p = "parents_of adj node ! idx"
  have t: "dfs_step adj s = s\<lparr>dfs_stack := (node, Suc idx) # below, dropped := dropped s @ [(node, ?p)]\<rparr>"
    using assms by (simp add: dfs_step_def st Let_def)
  have "?p = node \<or> ?p \<in> fst ` set below"
    using assms(3) inv by (auto simp: search_inv_def colored_def st)
  then have "(?p, node) \<in> (set (accepted s))\<^sup>*"
    using inv by (auto simp: search_inv_def chained_def st intro: trancl_into_rtrancl)
  then show ?thesis
    using inv unfolding t search_inv_def search_defs by (simp add: st take_next [OF idx])
qed

lemma step_white:
  assumes st: "dfs_stack s = (node, idx) # below"
    and idx: "idx < length (parents_of adj node)" and white: "color_of s (parents_of adj node ! idx) = WHITE"
    and inv: "search_inv adj fin s"
  shows "search_inv adj fin (dfs_step adj s)"
proof -
  let ?p = "parents_of adj node ! idx" and ?E = "set (accepted s @ [(node, parents_of adj node ! idx)])"
  have t: "dfs_step adj s = s\<lparr>dfs_stack := (?p, 0) # (node, Suc idx) # below,
      accepted := accepted s @ [(node, ?p)], color_of := (color_of s)(?p := GRAY)\<rparr>"
    using assms by (simp add: dfs_step_def st Let_def)
  have white_old: "color_of s ?p \<noteq> BLACK" "color_of s ?p \<noteq> GRAY" using white by simp_all
  have new: "?p \<notin> set fin" "?p \<noteq> node" "?p \<notin> fst ` set below"
    using inv white_old by (auto simp: search_inv_def colored_def st)
  have "colored fin (dfs_step adj s)"
    using inv new unfolding t search_inv_def colored_def by (auto simp: st)
  moreover have "backwards fin (dfs_step adj s)"
    using inv subseq_pair [of ?p "fin @ [?p]" node "map fst below"]
    unfolding t search_inv_def backwards_def by (auto simp: st intro: subseq_insert)
  moreover have "chained (dfs_step adj s)"
    using inv sorted_insert_mono [of "set (accepted s)" "node # map fst below" "(node, ?p)"]
    unfolding t search_inv_def chained_def by (auto simp: st intro: trancl_into_trancl)
  moreover have "closing (dfs_step adj s)"
    using inv unfolding t search_inv_def closing_def by (auto intro: rtrancl_insert_mono)
  moreover have "counted adj fin (dfs_step adj s)"
    using inv unfolding t search_inv_def counted_def by (simp add: st take_next [OF idx])
  ultimately show ?thesis by (simp add: search_inv_def)
qed

lemma step_black:
  assumes st: "dfs_stack s = (node, idx) # below"
    and idx: "idx < length (parents_of adj node)" and black: "color_of s (parents_of adj node ! idx) = BLACK"
    and inv: "search_inv adj fin s"
  shows "search_inv adj fin (dfs_step adj s)"
proof -
  let ?p = "parents_of adj node ! idx"
  have t: "dfs_step adj s = s\<lparr>dfs_stack := (node, Suc idx) # below, accepted := accepted s @ [(node, ?p)]\<rparr>"
    using assms by (simp add: dfs_step_def st Let_def)
  have "subseq [?p, node] (fin @ node # map fst below)"
    using inv black by (intro subseq_pair) (simp add: search_inv_def colored_def)
  then have "backwards fin (dfs_step adj s)"
    using inv unfolding t search_inv_def backwards_def by (auto simp: st)
  moreover have "chained (dfs_step adj s)"
    using inv sorted_insert_mono [of "set (accepted s)" "node # map fst below" "(node, ?p)"]
    unfolding t search_inv_def chained_def by (simp add: st)
  moreover have "closing (dfs_step adj s)"
    using inv unfolding t search_inv_def closing_def by (auto intro: rtrancl_insert_mono)
  moreover have "colored fin (dfs_step adj s)" "counted adj fin (dfs_step adj s)"
    using inv unfolding t search_inv_def colored_def counted_def by (simp_all add: st take_next [OF idx])
  ultimately show ?thesis by (simp add: search_inv_def)
qed

lemma step_pop:
  assumes st: "dfs_stack s = (node, idx) # below"
    and idx: "\<not> idx < length (parents_of adj node)" and inv: "search_inv adj fin s"
  shows "search_inv adj (fin @ [node]) (dfs_step adj s)"
proof -
  have t: "dfs_step adj s = s\<lparr>color_of := (color_of s)(node := BLACK), dfs_stack := below\<rparr>"
    using assms by (simp add: dfs_step_def st Let_def)
  have "colored (fin @ [node]) (dfs_step adj s)"
    using inv unfolding t search_inv_def colored_def by (auto simp: st)
  moreover have "backwards (fin @ [node]) (dfs_step adj s)" "chained (dfs_step adj s)"
      "closing (dfs_step adj s)"
    using inv unfolding t search_inv_def backwards_def chained_def closing_def by (auto simp: st)
  moreover have "counted adj (fin @ [node]) (dfs_step adj s)"
    using inv idx unfolding t search_inv_def counted_def by (simp add: st)
  ultimately show ?thesis by (simp add: search_inv_def)
qed

lemma dfs_step_inv:
  assumes inv: "search_inv adj fin s"
  shows "\<exists>fin'. search_inv adj fin' (dfs_step adj s) \<and>
    set fin \<union> fst ` set (dfs_stack s) \<subseteq> set fin' \<union> fst ` set (dfs_stack (dfs_step adj s))"
proof (cases "dfs_stack s")
  case (Cons e below)
  obtain node idx where st: "dfs_stack s = (node, idx) # below" using Cons by (cases e) auto
  show ?thesis
  proof (cases "idx < length (parents_of adj node)")
    case True
    then have "search_inv adj fin (dfs_step adj s)"
      using step_gray [OF st _ _ inv] step_white [OF st _ _ inv] step_black [OF st _ _ inv]
      by (cases "color_of s (parents_of adj node ! idx)") blast+
    moreover have "fst ` set (dfs_stack s) \<subseteq> fst ` set (dfs_stack (dfs_step adj s))"
      using True by (auto simp: dfs_step_def st Let_def split: color.split)
    ultimately show ?thesis by blast
  next
    case False
    have "fst ` set (dfs_stack s) \<subseteq> insert node (fst ` set (dfs_stack (dfs_step adj s)))"
      using False by (auto simp: dfs_step_def st Let_def)
    with step_pop [OF st False inv] show ?thesis by (intro exI [of _ "fin @ [node]"]) auto
  qed
qed (use inv in \<open>auto simp: dfs_step_def\<close>)

lemma dfs_loop_inv:
  "search_inv adj fin s \<Longrightarrow> \<exists>fin'. search_inv adj fin' (dfs_loop adj s) \<and>
     dfs_stack (dfs_loop adj s) = [] \<and> set fin \<union> fst ` set (dfs_stack s) \<subseteq> set fin'"
proof (induction adj s arbitrary: fin rule: dfs_loop.induct)
  case (1 adj s)
  show ?case
  proof (cases "dfs_stack s = []")
    case True
    then show ?thesis using 1 by (auto simp: dfs_loop.simps [of adj s])
  next
    case False
    obtain mid where mid: "search_inv adj mid (dfs_step adj s)"
      "set fin \<union> fst ` set (dfs_stack s) \<subseteq> set mid \<union> fst ` set (dfs_stack (dfs_step adj s))"
      using dfs_step_inv [OF "1.prems"] by blast
    from "1.IH" [OF False mid(1)] mid(2) False show ?thesis
      unfolding dfs_loop.simps [of adj s] if_not_P [OF False] by (meson order_trans)
  qed
qed

lemma visit_inv:
  assumes inv: "search_inv adj fin s" and st: "dfs_stack s = []"
  shows "\<exists>fin'. search_inv adj fin' (visit adj start s) \<and> dfs_stack (visit adj start s) = [] \<and>
    insert start (set fin) \<subseteq> set fin'"
proof (cases "color_of s start = WHITE")
  case False
  then have "visit adj start s = s" by (simp add: visit_def)
  moreover have "start \<in> set fin"
    using inv st False by (cases "color_of s start") (auto simp: search_inv_def colored_def)
  ultimately show ?thesis using inv st by auto
next
  case True
  let ?s = "s\<lparr>dfs_stack := [(start, 0)], color_of := (color_of s)(start := GRAY)\<rparr>"
  have new: "start \<notin> set fin"
    using inv True color.distinct by (force simp: search_inv_def colored_def)
  have "colored fin ?s" using inv st new by (auto simp: search_inv_def colored_def)
  then have "search_inv adj fin ?s"
    using inv st by (auto simp: search_inv_def backwards_def chained_def closing_def counted_def)
  from dfs_loop_inv [OF this] True show ?thesis by (auto simp: visit_def)
qed

lemma visits_inv:
  "search_inv adj fin s \<Longrightarrow> dfs_stack s = [] \<Longrightarrow>
     \<exists>fin'. search_inv adj fin' (fold (visit adj) order s) \<and> dfs_stack (fold (visit adj) order s) = [] \<and>
       set order \<union> set fin \<subseteq> set fin'"
proof (induction order arbitrary: fin s)
  case (Cons start order)
  obtain mid where "search_inv adj mid (visit adj start s)" "dfs_stack (visit adj start s) = []"
      and mid: "insert start (set fin) \<subseteq> set mid"
    using visit_inv [OF Cons.prems] by blast
  from Cons.IH [OF this(1,2)] mid show ?case by (auto intro: order_trans)
qed auto

text \<open>What a call of \<open>break_cycles\<close> gives, for any order of the nodes.\<close>

definition cycle_free_split :: "edge list \<Rightarrow> edge list \<Rightarrow> edge list \<Rightarrow> bool" where
  "cycle_free_split edges kept removed \<longleftrightarrow>
     acyclic (set kept) \<and> mset kept + mset removed = mset edges \<and>
     (\<forall>(u, v)\<in>set removed. (v, u) \<in> (set kept)\<^sup>*)"

lemma break_cycles_split:
  assumes "set order = set (edge_nodes edges)"
  shows "cycle_free_split edges (fst (break_cycles order edges)) (snd (break_cycles order edges))"
proof -
  define s0 where "s0 = \<lparr>color_of = (\<lambda>n. WHITE), dfs_stack = [], accepted = [], dropped = []\<rparr>"
  define s where "s = fold (visit (adjacency edges)) order s0"
  have "search_inv (adjacency edges) [] s0"
    by (simp add: s0_def search_inv_def search_defs)
  then obtain fin where inv: "search_inv (adjacency edges) fin s" and st: "dfs_stack s = []"
      and cover: "set order \<subseteq> set fin"
    using visits_inv [of "adjacency edges" "[]" s0 order] by (auto simp: s_def s0_def)
  have fin: "distinct fin" "fst ` set edges \<subseteq> set fin"
    using inv cover assms by (auto simp: search_inv_def colored_def edge_nodes_def)
  have "acyclic (set (accepted s))"
    using inv st by (intro backwards_acyclic [OF fin(1)]) (simp add: search_inv_def backwards_def)
  moreover have "mset (accepted s) + mset (dropped s) = mset edges"
    using inv st edges_by_child [OF fin] by (simp add: search_inv_def counted_def Pair_parents_of)
  moreover have "\<forall>(u, v)\<in>set (dropped s). (v, u) \<in> (set (accepted s))\<^sup>*"
    using inv by (simp add: search_inv_def closing_def)
  ultimately show ?thesis
    by (simp add: cycle_free_split_def break_cycles_def s_def s0_def Let_def)
qed

lemma acyclic_split_keeps_all:
  assumes "cycle_free_split edges kept removed" "acyclic (set edges)"
  shows "removed = []"
proof (rule ccontr)
  assume "removed \<noteq> []"
  then obtain u v where e: "(u, v) \<in> set removed" by (metis last_in_set surj_pair)
  have "set_mset (mset kept + mset removed) = set_mset (mset edges)"
    using assms(1) by (simp add: cycle_free_split_def)
  then have sub: "set kept \<subseteq> set edges" "set removed \<subseteq> set edges" by auto
  have "(v, u) \<in> (set kept)\<^sup>*"
    using assms(1) e unfolding cycle_free_split_def by blast
  then have "(v, u) \<in> (set edges)\<^sup>*" using rtrancl_mono [OF sub(1)] by blast
  moreover have "(u, v) \<in> set edges" using e sub(2) by blast
  ultimately have "(u, u) \<in> (set edges)\<^sup>+" by (rule rtrancl_into_trancl2 [rotated])
  with assms(2) show False by (simp add: acyclic_def)
qed

section \<open>Properties\<close>

text \<open>C22. Whatever order the set of nodes is walked in, \<open>break_cycles\<close> keeps an acyclic part of
  the edges, every edge is kept or dropped exactly as often as it was given, an edge is dropped only
  when the kept edges already lead from its parent back to its child, and an acyclic hierarchy is
  kept whole.\<close>

theorem break_cycles_makes_dag:
  assumes "set order = set (edge_nodes edges)"
  defines "kept \<equiv> fst (break_cycles order edges)" and "removed \<equiv> snd (break_cycles order edges)"
  shows "acyclic (set kept) \<and> mset kept + mset removed = mset edges \<and>
    (\<forall>(u, v)\<in>set removed. (v, u) \<in> (set kept)\<^sup>*) \<and> (acyclic (set edges) \<longrightarrow> removed = [])"
  using break_cycles_split [OF assms(1)] acyclic_split_keeps_all
  unfolding kept_def removed_def cycle_free_split_def by metis

theorem break_cycles_makes_dag_witness:
  "break_cycles [''a'', ''b'', ''c''] [(''a'', ''b''), (''b'', ''c''), (''c'', ''a'')] =
     ([(''a'', ''b''), (''b'', ''c'')], [(''c'', ''a'')]) \<and>
   acyclic {(''a'', ''b''), (''b'', ''c'')}"
proof -
  let ?es = "[(''a'', ''b''), (''b'', ''c''), (''c'', ''a'')]"
  have run: "break_cycles [''a'', ''b'', ''c''] ?es = ([(''a'', ''b''), (''b'', ''c'')], [(''c'', ''a'')])"
    by code_simp
  show ?thesis
    using break_cycles_makes_dag [of "[''a'', ''b'', ''c'']" ?es] unfolding run
    by (simp add: edge_nodes_def insert_commute)
qed

end
