(* ===== verification/LabelStore.thy ===== *)
theory LabelStore
  imports LabelDag PyData
begin

text \<open>
  \<^verbatim>\<open>services/label_service.py\<close>: the label tables of the cache database. A table is the list of its
  rows, in the order SQLite returns them. The column \<open>names\<close> holds a JSON text; it is modelled by the
  value the text denotes. A recursive query runs the way SQLite documents it, with a queue of rows;
  with \<open>UNION ALL\<close> it need not end, which is the value \<open>None\<close>.
\<close>

record label_row =
  row_names :: pyval
  row_implicit :: bool

record label_db =
  db_labels :: "label_row dict"
  db_edges :: "edge list"
  db_post_labels :: "(nat \<times> str) list"
  db_posts :: "(nat \<times> bool) list"

record label_response =
  lr_id :: str
  lr_names :: "pyval list"
  lr_implicit :: bool
  lr_parents :: "str list"
  lr_children :: "str list"
  lr_post_count :: nat

definition empty_db :: label_db where
  "empty_db = \<lparr>db_labels = [], db_edges = [], db_post_labels = [], db_posts = []\<rparr>"

section \<open>Queries\<close>

definition safe_parse_names :: "pyval \<Rightarrow> pyval list" where
  "safe_parse_names v = (case v of PList xs \<Rightarrow> xs | _ \<Rightarrow> [])"

definition ensure_label_cache_entry :: "str \<Rightarrow> label_db \<Rightarrow> label_db" where
  "ensure_label_cache_entry label_id db =
     (if has_key (db_labels db) label_id then db
      else db\<lparr>db_labels := db_labels db @ [(label_id, \<lparr>row_names = PList [], row_implicit = True\<rparr>)]\<rparr>)"

definition parents_in :: "edge list \<Rightarrow> str \<Rightarrow> str list" where
  "parents_in E x = map snd (filter (\<lambda>e. fst e = x) E)"

definition children_in :: "edge list \<Rightarrow> str \<Rightarrow> str list" where
  "children_in E x = map fst (filter (\<lambda>e. snd e = x) E)"

text \<open>Without drafts the count joins the posts table.\<close>

definition counted_posts :: "label_db \<Rightarrow> bool \<Rightarrow> (nat \<times> str) list" where
  "counted_posts db include_drafts =
     (if include_drafts then db_post_labels db
      else concat (map (\<lambda>row. map (\<lambda>p. row)
        (filter (\<lambda>(pid, draft). pid = fst row \<and> \<not> draft) (db_posts db))) (db_post_labels db)))"

definition count_for :: "label_db \<Rightarrow> bool \<Rightarrow> str \<Rightarrow> nat" where
  "count_for db include_drafts label_id =
     length (filter (\<lambda>row. snd row = label_id) (counted_posts db include_drafts))"

definition get_label :: "label_db \<Rightarrow> str \<Rightarrow> bool \<Rightarrow> label_response option" where
  "get_label db label_id include_drafts = (case dget (db_labels db) label_id of
     None \<Rightarrow> None
   | Some row \<Rightarrow> Some \<lparr>lr_id = label_id, lr_names = safe_parse_names (row_names row),
       lr_implicit = row_implicit row, lr_parents = parents_in (db_edges db) label_id,
       lr_children = children_in (db_edges db) label_id,
       lr_post_count = count_for db include_drafts label_id\<rparr>)"

text \<open>The maps \<open>get_all_labels\<close> fills in one pass over the edges and over the grouped counts.\<close>

definition add_to :: "str \<Rightarrow> 'v \<Rightarrow> 'v list dict \<Rightarrow> 'v list dict" where
  "add_to k v d = dset k ((case dget d k of None \<Rightarrow> [] | Some xs \<Rightarrow> xs) @ [v]) d"

definition relation_maps :: "edge list \<Rightarrow> str list dict \<times> str list dict" where
  "relation_maps E = fold (\<lambda>(label_id, parent_id) (ps, cs).
     (add_to label_id parent_id ps, add_to parent_id label_id cs)) E ([], [])"

definition group_counts :: "(nat \<times> str) list \<Rightarrow> nat dict" where
  "group_counts rows = fold (\<lambda>(pid, label_id) d.
     dset label_id (case dget d label_id of None \<Rightarrow> 1 | Some n \<Rightarrow> Suc n) d) rows []"

definition get_all_labels :: "label_db \<Rightarrow> bool \<Rightarrow> label_response list" where
  "get_all_labels db include_drafts =
     (let (parents_map, children_map) = relation_maps (db_edges db);
          post_counts = group_counts (counted_posts db include_drafts)
      in map (\<lambda>(label_id, row). \<lparr>lr_id = label_id, lr_names = safe_parse_names (row_names row),
           lr_implicit = row_implicit row,
           lr_parents = (case dget parents_map label_id of None \<Rightarrow> [] | Some xs \<Rightarrow> xs),
           lr_children = (case dget children_map label_id of None \<Rightarrow> [] | Some xs \<Rightarrow> xs),
           lr_post_count = (case dget post_counts label_id of None \<Rightarrow> 0 | Some n \<Rightarrow> n)\<rparr>) (db_labels db))"

definition get_label_graph :: "label_db \<Rightarrow> bool \<Rightarrow> (str \<times> pyval list \<times> nat) list \<times> edge list" where
  "get_label_graph db include_drafts =
     (let labs = get_all_labels db include_drafts in
      (map (\<lambda>l. (lr_id l, lr_names l, lr_post_count l)) labs,
       concat (map (\<lambda>l. map (Pair (lr_id l)) (lr_parents l)) labs)))"

section \<open>Recursive queries\<close>

text \<open>All rows of a \<open>UNION ALL\<close> query, and the search for one row of it that stops at the first.\<close>

partial_function (option) cte_union_all :: "(str \<Rightarrow> str list) \<Rightarrow> str list \<Rightarrow> str list option" where
  "cte_union_all next_rows queue = (case queue of
     [] \<Rightarrow> Some []
   | x # rest \<Rightarrow> Option.bind (cte_union_all next_rows (rest @ next_rows x)) (\<lambda>xs. Some (x # xs)))"

partial_function (option) cte_finds :: "(str \<Rightarrow> str list) \<Rightarrow> str \<Rightarrow> str list \<Rightarrow> bool option" where
  "cte_finds next_rows target queue = (case queue of
     [] \<Rightarrow> Some False
   | x # rest \<Rightarrow> if x = target then Some True else cte_finds next_rows target (rest @ next_rows x))"

text \<open>\<open>UNION\<close> queues a row only when it was not queued before.\<close>

partial_function (option) cte_union :: "('a \<Rightarrow> 'a list) \<Rightarrow> 'a list \<Rightarrow> 'a list \<Rightarrow> 'a list option" where
  "cte_union next_rows seen queue = (case queue of
     [] \<Rightarrow> Some []
   | x # rest \<Rightarrow>
       Option.bind (cte_union next_rows (seen @ filter (\<lambda>y. y \<notin> set seen) (remdups (next_rows x)))
           (rest @ filter (\<lambda>y. y \<notin> set seen) (remdups (next_rows x))))
         (\<lambda>xs. Some (x # xs)))"

definition get_label_descendant_ids :: "label_db \<Rightarrow> str \<Rightarrow> str list option" where
  "get_label_descendant_ids db label_id =
     map_option remdups (cte_union_all (children_in (db_edges db)) [label_id])"

definition seed_rows :: "str list \<Rightarrow> (str \<times> str) list" where
  "seed_rows label_ids = remdups (map (\<lambda>i. (i, i)) label_ids)"

definition descendant_rows :: "edge list \<Rightarrow> str \<times> str \<Rightarrow> (str \<times> str) list" where
  "descendant_rows E = (\<lambda>(root, x). map (Pair root) (children_in E x))"

text \<open>The result maps each seed to the set of its rows, here the list of them.\<close>

definition get_label_descendants_batch :: "label_db \<Rightarrow> str list \<Rightarrow> (str \<times> str list) list option" where
  "get_label_descendants_batch db label_ids =
     (if label_ids = [] then Some []
      else map_option (\<lambda>rows. map (\<lambda>i. (i, map snd (filter (\<lambda>r. fst r = i) rows))) (remdups label_ids))
        (cte_union (descendant_rows (db_edges db)) (seed_rows label_ids) (seed_rows label_ids)))"

definition would_create_cycle :: "edge list \<Rightarrow> str \<Rightarrow> str \<Rightarrow> bool option" where
  "would_create_cycle E label_id proposed_parent_id =
     (if label_id = proposed_parent_id then Some True
      else cte_finds (parents_in E) label_id [proposed_parent_id])"

section \<open>Updates\<close>

datatype label_error = CycleError str | IntegrityError

text \<open>The loop over the proposed parents: the first one that would close a cycle.\<close>

fun first_cycle :: "edge list \<Rightarrow> str \<Rightarrow> str list \<Rightarrow> str option option" where
  "first_cycle E label_id [] = Some None"
| "first_cycle E label_id (p # ps) = (case would_create_cycle E label_id p of
     None \<Rightarrow> None
   | Some True \<Rightarrow> Some (Some p)
   | Some False \<Rightarrow> first_cycle E label_id ps)"

text \<open>Inserting the edges: a pair that is there already, or twice in the batch, violates the primary
  key, a self-loop the check constraint. Foreign keys are not enforced.\<close>

definition add_edges :: "str \<Rightarrow> str list \<Rightarrow> label_db \<Rightarrow> label_error + label_db" where
  "add_edges label_id ps db =
     (if distinct (db_edges db @ map (Pair label_id) ps) \<and> label_id \<notin> set ps
      then Inr (db\<lparr>db_edges := db_edges db @ map (Pair label_id) ps\<rparr>) else Inl IntegrityError)"

text \<open>The checks, the insertion and the answer that creation and update share.\<close>

definition link_parents ::
  "str \<Rightarrow> str list \<Rightarrow> label_db \<Rightarrow> (label_error + (label_db \<times> label_response option)) option" where
  "link_parents label_id ps db = map_option (\<lambda>c. case c of
       Some p \<Rightarrow> Inl (CycleError p)
     | None \<Rightarrow> (case add_edges label_id ps db of
          Inl e \<Rightarrow> Inl e
        | Inr db' \<Rightarrow> Inr (db', get_label db' label_id False)))
     (first_cycle (db_edges db) label_id ps)"

definition create_label ::
  "label_db \<Rightarrow> str \<Rightarrow> str list \<Rightarrow> str list \<Rightarrow> (label_error + (label_db \<times> label_response option)) option" where
  "create_label db label_id names ps =
     (if has_key (db_labels db) label_id then Some (Inr (db, None))
      else link_parents label_id ps (db\<lparr>db_labels := db_labels db @
        [(label_id, \<lparr>row_names = PList (map PStr names), row_implicit = False\<rparr>)]\<rparr>))"

definition update_label ::
  "label_db \<Rightarrow> str \<Rightarrow> str list \<Rightarrow> str list \<Rightarrow> (label_error + (label_db \<times> label_response option)) option" where
  "update_label db label_id names ps = (case dget (db_labels db) label_id of
     None \<Rightarrow> Some (Inr (db, None))
   | Some row \<Rightarrow> link_parents label_id ps
       (db\<lparr>db_labels := dset label_id (row\<lparr>row_names := PList (map PStr names)\<rparr>) (db_labels db),
           db_edges := filter (\<lambda>e. fst e \<noteq> label_id) (db_edges db)\<rparr>))"

text \<open>Deleting a label removes its edges on both sides and its post associations.\<close>

definition delete_label :: "label_db \<Rightarrow> str \<Rightarrow> label_db \<times> bool" where
  "delete_label db label_id =
     (if \<not> has_key (db_labels db) label_id then (db, False)
      else (db\<lparr>db_labels := dpop label_id (db_labels db),
          db_edges := filter (\<lambda>e. fst e \<noteq> label_id \<and> snd e \<noteq> label_id) (db_edges db),
          db_post_labels := filter (\<lambda>r. snd r \<noteq> label_id) (db_post_labels db)\<rparr>, True))"

section \<open>What the queries return\<close>

lemma parents_in_set: "set (parents_in E x) = {p. (x, p) \<in> set E}"
  by (force simp: parents_in_def)

lemma children_in_set: "set (children_in E x) = {c. (c, x) \<in> set E}"
  by (force simp: children_in_def)

lemma queue_less:
  assumes "\<forall>y\<in>set ys. (y, x) \<in> R"
  shows "(mset (rest @ ys), mset (x # rest)) \<in> mult R"
  using one_step_implies_mult [of "{#x#}" "mset ys" R "mset rest"] assms by simp

lemma cte_finds_wf:
  assumes wf: "wf {(y, x). y \<in> set (next_rows x)}"
  shows "cte_finds next_rows target queue =
    Some (\<exists>x\<in>set queue. (x, target) \<in> {(x, y). y \<in> set (next_rows x)}\<^sup>*)"
proof (induction "mset queue" arbitrary: queue rule: wf_induct_rule [OF wf_mult [OF wf]])
  case less: 1
  let ?R = "{(x, y). y \<in> set (next_rows x)}"
  show ?case
  proof (cases queue)
    case (Cons x rest)
    have "(mset (rest @ next_rows x), mset queue) \<in> mult {(y, x). y \<in> set (next_rows x)}"
      unfolding Cons by (rule queue_less) simp
    note less [OF this]
    moreover have "(x, target) \<in> ?R\<^sup>* \<longleftrightarrow> x = target \<or> (\<exists>y\<in>set (next_rows x). (y, target) \<in> ?R\<^sup>*)"
      by (auto elim: converse_rtranclE intro: converse_rtrancl_into_rtrancl)
    ultimately show ?thesis using Cons by (subst cte_finds.simps) auto
  qed (simp add: cte_finds.simps)
qed

lemma cte_union_all_wf:
  assumes wf: "wf {(y, x). y \<in> set (next_rows x)}"
  shows "\<exists>xs. cte_union_all next_rows queue = Some xs \<and>
    set xs = {y. \<exists>x\<in>set queue. (x, y) \<in> {(x, y). y \<in> set (next_rows x)}\<^sup>*}"
proof (induction "mset queue" arbitrary: queue rule: wf_induct_rule [OF wf_mult [OF wf]])
  case less: 1
  let ?R = "{(x, y). y \<in> set (next_rows x)}"
  show ?case
  proof (cases queue)
    case (Cons x rest)
    have "(mset (rest @ next_rows x), mset queue) \<in> mult {(y, x). y \<in> set (next_rows x)}"
      unfolding Cons by (rule queue_less) simp
    from less [OF this] obtain xs where xs: "cte_union_all next_rows (rest @ next_rows x) = Some xs"
      "set xs = {z. \<exists>y\<in>set (rest @ next_rows x). (y, z) \<in> ?R\<^sup>*}" by blast
    have "(x, z) \<in> ?R\<^sup>* \<longleftrightarrow> x = z \<or> (\<exists>y\<in>set (next_rows x). (y, z) \<in> ?R\<^sup>*)" for z
      by (auto elim: converse_rtranclE intro: converse_rtrancl_into_rtrancl)
    then have "set (x # xs) = {z. \<exists>y\<in>set queue. (y, z) \<in> ?R\<^sup>*}" using xs(2) Cons by auto
    with xs(1) Cons show ?thesis by (subst cte_union_all.simps) auto
  qed (simp add: cte_union_all.simps)
qed

text \<open>On an acyclic table both directions are well-founded.\<close>

lemma parents_relation: "{(x, y). y \<in> set (parents_in E x)} = set E"
  by (simp add: parents_in_set)

lemma children_relation: "{(x, y). y \<in> set (children_in E x)} = (set E)\<inverse>"
  by (auto simp: children_in_set)

lemma wf_parents: "acyclic (set E) \<Longrightarrow> wf {(y, x). y \<in> set (parents_in E x)}"
proof -
  assume "acyclic (set E)"
  then have "wf ((set E)\<inverse>)" by (simp add: finite_acyclic_wf_converse)
  moreover have "{(y, x). y \<in> set (parents_in E x)} = (set E)\<inverse>" by (auto simp: parents_in_set)
  ultimately show ?thesis by argo
qed

lemma wf_children: "acyclic (set E) \<Longrightarrow> wf {(y, x). y \<in> set (children_in E x)}"
  by (simp add: children_in_set finite_acyclic_wf)

lemma would_create_cycle_iff:
  "acyclic (set E) \<Longrightarrow> would_create_cycle E l p = Some ((p, l) \<in> (set E)\<^sup>*)"
  by (simp add: would_create_cycle_def cte_finds_wf [OF wf_parents] parents_relation)

lemma descendant_ids:
  assumes "acyclic (set (db_edges db))"
  obtains xs where "get_label_descendant_ids db l = Some xs" "distinct xs"
    "set xs = {d. (d, l) \<in> (set (db_edges db))\<^sup>*}"
proof -
  obtain xs where xs: "cte_union_all (children_in (db_edges db)) [l] = Some xs"
    "set xs = {y. (l, y) \<in> ((set (db_edges db))\<inverse>)\<^sup>*}"
    using cte_union_all_wf [OF wf_children [OF assms], of "[l]"] by (auto simp: children_relation)
  show ?thesis
    by (rule that [of "remdups xs"]) (simp_all add: get_label_descendant_ids_def xs rtrancl_converse)
qed

section \<open>Cycles\<close>

lemma reach_source:
  "(x, l) \<in> (E \<union> Pair l ` set ps)\<^sup>* \<longleftrightarrow> (x, l) \<in> E\<^sup>*"
proof (induction ps)
  case (Cons p ps)
  have "(x, l) \<in> (insert (l, p) (E \<union> Pair l ` set ps))\<^sup>* \<longleftrightarrow> (x, l) \<in> (E \<union> Pair l ` set ps)\<^sup>*"
    unfolding rtrancl_insert by auto
  then show ?case using Cons by simp
qed simp

lemma acyclic_add_parents:
  assumes "acyclic E"
  shows "acyclic (E \<union> Pair l ` set ps) \<longleftrightarrow> (\<forall>p\<in>set ps. (p, l) \<notin> E\<^sup>*)"
proof (induction ps)
  case (Cons p ps)
  have "E \<union> Pair l ` set (p # ps) = insert (l, p) (E \<union> Pair l ` set ps)" by simp
  then show ?case using Cons reach_source [of p l E ps] by auto
qed (simp add: assms)

lemma first_cycle_find:
  "acyclic (set E) \<Longrightarrow> first_cycle E l ps = Some (List.find (\<lambda>p. (p, l) \<in> (set E)\<^sup>*) ps)"
  by (induction ps) (simp_all add: would_create_cycle_iff split: bool.split)

text \<open>The tables of a running server: one row per label, no edge twice, no cycle.\<close>

definition db_ok :: "label_db \<Rightarrow> bool" where
  "db_ok db \<longleftrightarrow> distinct (dkeys (db_labels db)) \<and> distinct (db_edges db) \<and> acyclic (set (db_edges db))"

text \<open>Linking new parents returns, and refuses exactly what would close a cycle or repeat a parent.\<close>

lemma link_parents_cases:
  fixes ps :: "str list"
  assumes ok: "db_ok db" and fresh: "\<And>e. e \<in> set (db_edges db) \<Longrightarrow> fst e \<noteq> l"
  defines "wanted \<equiv> set (db_edges db) \<union> Pair l ` set ps"
  obtains
    (cycle) p where "link_parents l ps db = Some (Inl (CycleError p))" "p \<in> set ps" "\<not> acyclic wanted"
  | (duplicate) "link_parents l ps db = Some (Inl IntegrityError)" "\<not> distinct ps" "acyclic wanted"
  | (linked) db' where "link_parents l ps db = Some (Inr (db', get_label db' l False))" "acyclic wanted"
      "db' = db\<lparr>db_edges := db_edges db @ map (Pair l) ps\<rparr>" "db_ok db'"
proof -
  have acyc: "acyclic (set (db_edges db))" using ok by (simp add: db_ok_def)
  note iff = acyclic_add_parents [OF acyc, of l ps, folded wanted_def]
  note find = first_cycle_find [OF acyc, of l ps]
  show ?thesis
  proof (cases "List.find (\<lambda>p. (p, l) \<in> (set (db_edges db))\<^sup>*) ps")
    case (Some p)
    then have "p \<in> set ps" "(p, l) \<in> (set (db_edges db))\<^sup>*"
      by (auto simp: find_Some_iff)
    then show ?thesis using cycle [of p] iff Some find by (auto simp: link_parents_def)
  next
    case None
    then have none: "\<forall>p\<in>set ps. (p, l) \<notin> (set (db_edges db))\<^sup>*" by (simp add: find_None_iff)
    then have "l \<notin> set ps" by auto
    moreover have "(l, p) \<notin> set (db_edges db)" for p using fresh [of "(l, p)"] by auto
    then have "distinct (db_edges db @ map (Pair l) ps) \<longleftrightarrow> distinct ps"
      using ok by (auto simp: db_ok_def distinct_map inj_on_def)
    ultimately show ?thesis
      using duplicate linked none iff None find ok
      by (cases "distinct ps") (auto simp: link_parents_def add_edges_def db_ok_def wanted_def)
  qed
qed

section \<open>The operations keep the tables acyclic\<close>

lemma db_ok_cong:
  "db_edges db' = db_edges db \<Longrightarrow> distinct (dkeys (db_labels db')) \<Longrightarrow> db_ok db \<Longrightarrow> db_ok db'"
  by (simp add: db_ok_def)

lemma db_ok_fewer:
  assumes "db_ok db" "db_edges db' = filter P (db_edges db)" "distinct (dkeys (db_labels db'))"
  shows "db_ok db'"
  using assms acyclic_subset [of "set (db_edges db)" "set (filter P (db_edges db))"]
  by (auto simp: db_ok_def)

lemma link_parents_edges:
  assumes "link_parents l ps db = Some (Inr (db', r))"
  shows "db' = db\<lparr>db_edges := db_edges db @ map (Pair l) ps\<rparr>"
  using assms by (auto simp: link_parents_def add_edges_def split: option.splits if_splits)

lemma link_parents_ok:
  assumes "db_ok db" "\<And>e. e \<in> set (db_edges db) \<Longrightarrow> fst e \<noteq> l"
    and "link_parents l ps db = Some (Inr (db', r))"
  shows "db_ok db'"
  by (rule link_parents_cases [OF assms(1,2), of ps]) (use assms(3) in auto)

definition edges_known :: "label_db \<Rightarrow> bool" where
  "edges_known db \<longleftrightarrow> fst ` set (db_edges db) \<subseteq> set (dkeys (db_labels db))"

lemma create_label_ok:
  assumes ok: "db_ok db" and known: "edges_known db"
    and run: "create_label db l names ps = Some (Inr (db', r))"
  shows "db_ok db' \<and> edges_known db'"
proof (cases "has_key (db_labels db) l")
  case False
  let ?db = "db\<lparr>db_labels := db_labels db @ [(l, \<lparr>row_names = PList (map PStr names), row_implicit = False\<rparr>)]\<rparr>"
  have link: "link_parents l ps ?db = Some (Inr (db', r))"
    using run False by (simp add: create_label_def)
  have fresh: "\<And>e. e \<in> set (db_edges ?db) \<Longrightarrow> fst e \<noteq> l"
    using known False by (auto simp: edges_known_def has_key_iff)
  have ok': "db_ok ?db"
    using ok False by (intro db_ok_cong [OF _ _ ok]) (auto simp: db_ok_def has_key_iff)
  have "db' = ?db\<lparr>db_edges := db_edges ?db @ map (Pair l) ps\<rparr>"
    by (rule link_parents_edges [OF link])
  then have "edges_known db'" using known by (auto simp: edges_known_def)
  with link_parents_ok [OF ok' fresh link] show ?thesis by blast
qed (use assms in \<open>auto simp: create_label_def\<close>)

lemma update_label_link:
  fixes names :: "str list"
  assumes "db_ok db" "dget (db_labels db) l = Some row"
  defines "db1 \<equiv> db\<lparr>db_labels := dset l (row\<lparr>row_names := PList (map PStr names)\<rparr>) (db_labels db),
           db_edges := filter (\<lambda>e. fst e \<noteq> l) (db_edges db)\<rparr>"
  shows "update_label db l names ps = link_parents l ps db1" "db_ok db1"
    "\<And>e. e \<in> set (db_edges db1) \<Longrightarrow> fst e \<noteq> l"
proof -
  show "update_label db l names ps = link_parents l ps db1" "\<And>e. e \<in> set (db_edges db1) \<Longrightarrow> fst e \<noteq> l"
    using assms(2) by (auto simp: update_label_def db1_def)
  have "distinct (dkeys (db_labels db1))"
    using assms(1) by (simp add: db1_def db_ok_def dset_distinct)
  then show "db_ok db1" by (intro db_ok_fewer [OF assms(1)]) (simp_all add: db1_def)
qed

lemma update_label_ok:
  assumes ok: "db_ok db" and known: "edges_known db"
    and run: "update_label db l names ps = Some (Inr (db', r))"
  shows "db_ok db' \<and> edges_known db'"
proof (cases "dget (db_labels db) l")
  case (Some row)
  note link = update_label_link [OF ok Some, where names = names]
  note ran = run [unfolded link(1)]
  have "l \<in> set (dkeys (db_labels db))" using Some by (rule dget_Some_key)
  then have "edges_known db'"
    using known link_parents_edges [OF ran]
      dset_keys [of l "row\<lparr>row_names := PList (map PStr names)\<rparr>" "db_labels db"]
    by (auto simp: edges_known_def)
  with link_parents_ok [OF link(2,3) ran] show ?thesis by blast
qed (use assms in \<open>auto simp: update_label_def\<close>)

lemma delete_label_ok:
  assumes "db_ok db" "edges_known db" shows "db_ok (fst (delete_label db l)) \<and> edges_known (fst (delete_label db l))"
proof -
  have "fst ` set (dpop l (db_labels db)) = fst ` set (db_labels db) - {l}"
    using dpop_keys [of l "db_labels db"] by simp
  then show ?thesis
    using assms db_ok_fewer [OF assms(1), of "fst (delete_label db l)" "\<lambda>e. fst e \<noteq> l \<and> snd e \<noteq> l"]
    by (auto simp: delete_label_def edges_known_def db_ok_def dpop_distinct)
qed

lemma ensure_label_ok:
  "db_ok db \<Longrightarrow> edges_known db \<Longrightarrow>
    db_ok (ensure_label_cache_entry l db) \<and> edges_known (ensure_label_cache_entry l db)"
  by (auto simp: ensure_label_cache_entry_def db_ok_def edges_known_def has_key_iff)

text \<open>A transaction that is refused is rolled back, so only accepted updates change the tables.\<close>

inductive label_step :: "label_db \<Rightarrow> label_db \<Rightarrow> bool" where
  create: "create_label db l names ps = Some (Inr (db', r)) \<Longrightarrow> label_step db db'"
| update: "update_label db l names ps = Some (Inr (db', r)) \<Longrightarrow> label_step db db'"
| delete: "label_step db (fst (delete_label db l))"
| ensure: "label_step db (ensure_label_cache_entry l db)"

inductive_cases label_stepE: "label_step db db'"

interpretation label_tables: transitions "\<lambda>db. db = empty_db" label_step "\<lambda>db. db_ok db \<and> edges_known db"
proof unfold_locales
  show "db = empty_db \<Longrightarrow> db_ok db \<and> edges_known db" for db
    by (simp add: empty_db_def db_ok_def edges_known_def acyclic_def)
  show "db_ok db \<and> edges_known db \<Longrightarrow> label_step db db' \<Longrightarrow> db_ok db' \<and> edges_known db'" for db db'
    by (erule label_stepE) (use create_label_ok update_label_ok delete_label_ok ensure_label_ok in blast)+
qed

section \<open>The batch query\<close>

lemma cte_union_reach:
  assumes "finite U" "\<And>x. x \<in> U \<Longrightarrow> set (next_rows x) \<subseteq> U"
    and "set queue \<subseteq> set seen" "set seen \<subseteq> U"
  defines "R \<equiv> {(x, y). y \<in> set (next_rows x)}"
  shows "\<exists>xs. cte_union next_rows seen queue = Some xs \<and> set queue \<subseteq> set xs \<and> set xs \<subseteq> R\<^sup>* `` set queue \<and>
    ((\<forall>d\<in>set seen - set queue. set (next_rows d) \<subseteq> set seen) \<longrightarrow>
     (\<forall>d\<in>set seen \<union> set xs. set (next_rows d) \<subseteq> set seen \<union> set xs))"
  using assms(3,4)
proof (induction "2 * card (U - set seen) + length queue" arbitrary: seen queue rule: less_induct)
  case less
  show ?case
  proof (cases queue)
    case Nil
    then show ?thesis by (simp add: cte_union.simps)
  next
    case (Cons x rest)
    define new where "new = filter (\<lambda>y. y \<notin> set seen) (remdups (next_rows x))"
    have new: "set new = set (next_rows x) - set seen" "distinct new" by (auto simp: new_def)
    have x: "x \<in> set seen" "set new \<subseteq> U"
      using less.prems assms(2) [of x] Cons new by auto
    have "card (U - set seen) = card (U - set (seen @ new)) + card (set new)"
    proof -
      have "U - set seen = (U - set (seen @ new)) \<union> set new" "(U - set (seen @ new)) \<inter> set new = {}"
        using x new by auto
      then show ?thesis using assms(1) by (simp add: card_Un_disjoint)
    qed
    then have "2 * card (U - set (seen @ new)) + length (rest @ new) < 2 * card (U - set seen) + length queue"
      using Cons new(2) by (simp add: distinct_card)
    moreover have "set (rest @ new) \<subseteq> set (seen @ new)" "set (seen @ new) \<subseteq> U"
      using less.prems Cons x by auto
    ultimately obtain xs where xs: "cte_union next_rows (seen @ new) (rest @ new) = Some xs"
        "set (rest @ new) \<subseteq> set xs" "set xs \<subseteq> R\<^sup>* `` set (rest @ new)"
      and closed: "(\<forall>d\<in>set (seen @ new) - set (rest @ new). set (next_rows d) \<subseteq> set (seen @ new)) \<longrightarrow>
        (\<forall>d\<in>set (seen @ new) \<union> set xs. set (next_rows d) \<subseteq> set (seen @ new) \<union> set xs)"
      using less.hyps by blast
    have "R\<^sup>* `` set (rest @ new) \<subseteq> R\<^sup>* `` set queue"
      using new(1) by (auto simp: Cons R_def intro: converse_rtrancl_into_rtrancl)
    moreover have "cte_union next_rows seen queue = Some (x # xs)"
      using xs(1) by (subst cte_union.simps) (simp add: Cons new_def)
    moreover have "\<forall>d\<in>set seen \<union> set (x # xs). set (next_rows d) \<subseteq> set seen \<union> set (x # xs)"
      if "\<forall>d\<in>set seen - set queue. set (next_rows d) \<subseteq> set seen"
    proof -
      have "set (next_rows d) \<subseteq> set (seen @ new)" if "d \<in> set (seen @ new) - set (rest @ new)" for d
        using that \<open>\<forall>d\<in>set seen - set queue. _ d\<close> new(1) Cons by (cases "d = x") auto
      with closed have all: "\<forall>d\<in>set (seen @ new) \<union> set xs. set (next_rows d) \<subseteq> set (seen @ new) \<union> set xs"
        by blast
      have "set (seen @ new) \<union> set xs = set seen \<union> set (x # xs)" using xs(2) x(1) by auto
      then show ?thesis using all by (simp only:)
    qed
    ultimately show ?thesis using xs(2,3) Cons by (intro exI [of _ "x # xs"]) auto
  qed
qed

lemma descendant_rows_reach:
  "((seed, x), (seed', y)) \<in> {(x, y). y \<in> set (descendant_rows E x)}\<^sup>* \<longleftrightarrow>
     seed' = seed \<and> (y, x) \<in> (set E)\<^sup>*"
proof
  let ?R = "{(x, y). y \<in> set (descendant_rows E x)}"
  have step: "(r', b) \<in> set (descendant_rows E (r, a)) \<longleftrightarrow> r' = r \<and> (b, a) \<in> set E" for r a r' b
    by (auto simp: descendant_rows_def children_in_set)
  show "seed' = seed \<and> (y, x) \<in> (set E)\<^sup>*" if "((seed, x), (seed', y)) \<in> ?R\<^sup>*"
    using that by (induction "(seed', y)" arbitrary: seed' y rule: rtrancl_induct)
      (auto simp: step intro: converse_rtrancl_into_rtrancl)
  have "(y, x) \<in> (set E)\<^sup>* \<Longrightarrow> ((seed, x), (seed, y)) \<in> ?R\<^sup>*"
    by (induction rule: converse_rtrancl_induct) (auto simp: step intro: rtrancl_into_rtrancl)
  then show "((seed, x), (seed', y)) \<in> ?R\<^sup>*" if "seed' = seed \<and> (y, x) \<in> (set E)\<^sup>*"
    using that by blast
qed

lemma batch_rows:
  obtains rows where "cte_union (descendant_rows E) (seed_rows ids) (seed_rows ids) = Some rows"
    "\<And>i d. (i, d) \<in> set rows \<longleftrightarrow> i \<in> set ids \<and> (d, i) \<in> (set E)\<^sup>*"
proof -
  let ?U = "set ids \<times> (set ids \<union> fst ` set E)" and ?R = "{(x, y). y \<in> set (descendant_rows E x)}"
  have inside: "set (descendant_rows E x) \<subseteq> ?U" if "x \<in> ?U" for x
    using that by (force simp: descendant_rows_def children_in_set)
  have seeds: "set (seed_rows ids) = (\<lambda>i. (i, i)) ` set ids" by (simp add: seed_rows_def)
  have "finite ?U" "set (seed_rows ids) \<subseteq> ?U" by (auto simp: seeds)
  from cte_union_reach [of ?U "descendant_rows E", OF this(1) inside subset_refl this(2)]
  obtain rows where rows: "cte_union (descendant_rows E) (seed_rows ids) (seed_rows ids) = Some rows"
      "set (seed_rows ids) \<subseteq> set rows" "set rows \<subseteq> ?R\<^sup>* `` set (seed_rows ids)"
    and all: "\<forall>d\<in>set (seed_rows ids) \<union> set rows. set (descendant_rows E d) \<subseteq> set (seed_rows ids) \<union> set rows"
    by auto
  have closed: "\<forall>d\<in>set rows. set (descendant_rows E d) \<subseteq> set rows"
    using all rows(2) by (simp add: Un_absorb1)
  have "?R\<^sup>* `` set rows = set rows"
    by (rule Image_closed_trancl) (use closed in auto)
  then have "?R\<^sup>* `` set (seed_rows ids) \<subseteq> set rows" using rows(2) by blast
  then have rows_eq: "set rows = ?R\<^sup>* `` set (seed_rows ids)" using rows(3) by blast
  have "(i, d) \<in> set rows \<longleftrightarrow> (\<exists>j\<in>set ids. ((j, j), (i, d)) \<in> ?R\<^sup>*)" for i d
    unfolding rows_eq seeds by (simp add: Image_iff)
  then have "(i, d) \<in> set rows \<longleftrightarrow> i \<in> set ids \<and> (d, i) \<in> (set E)\<^sup>*" for i d
    by (auto simp: descendant_rows_reach)
  with rows(1) show ?thesis by (rule that)
qed

section \<open>One pass or one query per label\<close>

lemma get_add_to:
  "(case dget (add_to k v d) x of None \<Rightarrow> [] | Some xs \<Rightarrow> xs) =
   (case dget d x of None \<Rightarrow> [] | Some xs \<Rightarrow> xs) @ (if x = k then [v] else [])"
  by (auto simp: add_to_def split: option.splits)

lemma relation_maps_fold:
  "(case dget (fst (fold (\<lambda>(l, p) (ps, cs). (add_to l p ps, add_to p l cs)) E (ps, cs))) x of
      None \<Rightarrow> [] | Some xs \<Rightarrow> xs) = (case dget ps x of None \<Rightarrow> [] | Some xs \<Rightarrow> xs) @ parents_in E x \<and>
   (case dget (snd (fold (\<lambda>(l, p) (ps, cs). (add_to l p ps, add_to p l cs)) E (ps, cs))) x of
      None \<Rightarrow> [] | Some xs \<Rightarrow> xs) = (case dget cs x of None \<Rightarrow> [] | Some xs \<Rightarrow> xs) @ children_in E x"
proof (induction E arbitrary: ps cs)
  case (Cons e E)
  obtain l p where e: "e = (l, p)" by (cases e)
  show ?case using Cons.IH [of "add_to l p ps" "add_to p l cs"]
    by (simp add: e get_add_to parents_in_def children_in_def)
qed (simp add: parents_in_def children_in_def)

lemma group_counts_fold:
  "(case dget (fold (\<lambda>(pid, l) d. dset l (case dget d l of None \<Rightarrow> 1 | Some n \<Rightarrow> Suc n) d) rows d) x of
      None \<Rightarrow> 0 | Some n \<Rightarrow> n) =
   (case dget d x of None \<Rightarrow> 0 | Some n \<Rightarrow> n) + length (filter (\<lambda>r. snd r = x) rows)"
  by (induction rows arbitrary: d) (auto split: option.splits)

lemma get_all_labels_pointwise:
  assumes "distinct (dkeys (db_labels db))"
  shows "map Some (get_all_labels db drafts) = map (\<lambda>l. get_label db l drafts) (dkeys (db_labels db))"
proof -
  obtain ps cs where maps: "relation_maps (db_edges db) = (ps, cs)" by fastforce
  have get: "(case dget ps x of None \<Rightarrow> [] | Some xs \<Rightarrow> xs) = parents_in (db_edges db) x"
      "(case dget cs x of None \<Rightarrow> [] | Some xs \<Rightarrow> xs) = children_in (db_edges db) x" for x
    using maps relation_maps_fold [where E = "db_edges db" and ps = "[]" and cs = "[]" and x = x] by (simp_all add: relation_maps_def)
  have counts: "(case dget (group_counts (counted_posts db drafts)) x of None \<Rightarrow> 0 | Some n \<Rightarrow> n) =
      count_for db drafts x" for x
    using group_counts_fold [of "counted_posts db drafts" "[]" x] by (simp add: group_counts_def count_for_def)
  have row: "dget (db_labels db) l = Some row" if "(l, row) \<in> set (db_labels db)" for l row
    using assms that by simp
  show ?thesis
    by (auto simp: get_all_labels_def maps get counts get_label_def row)
qed

section \<open>Properties\<close>

definition demo_labels :: label_db where
  "demo_labels = \<lparr>db_labels =
       [(''a'', \<lparr>row_names = PList [], row_implicit = False\<rparr>),
        (''b'', \<lparr>row_names = PList [], row_implicit = False\<rparr>)],
     db_edges = [(''a'', ''b'')], db_post_labels = [(1, ''a''), (2, ''a'')], db_posts = [(1, False), (2, True)]\<rparr>"

lemma acyclic_empty [simp]: "acyclic {}"
  by (simp add: acyclic_def)

lemma demo_labels_ok: "db_ok demo_labels" "edges_known demo_labels"
  by (simp_all add: demo_labels_def db_ok_def edges_known_def)

text \<open>C23. Whatever labels are created, updated, deleted and implied, the edge table never holds a
  cycle or an edge twice, and the cycle check, which need not end on a cyclic table, always answers.\<close>

theorem label_tables_stay_acyclic:
  assumes "label_step\<^sup>*\<^sup>* empty_db db"
  shows "acyclic (set (db_edges db)) \<and> distinct (db_edges db) \<and>
    would_create_cycle (db_edges db) l p = Some ((p, l) \<in> (set (db_edges db))\<^sup>*)"
  using label_tables.reached [OF refl assms] by (simp add: db_ok_def would_create_cycle_iff)

theorem label_tables_stay_acyclic_witness:
  "\<exists>db db1 db2. create_label empty_db ''b'' [] [] = Some (Inr (db1, db)) \<and>
     create_label db1 ''a'' [''A''] [''b''] = Some (Inr db2) \<and>
     would_create_cycle (db_edges (fst db2)) ''b'' ''a'' = Some True"
proof -
  obtain db1 r1 where 1: "create_label empty_db ''b'' [] [] = Some (Inr (db1, r1))"
    by (simp add: create_label_def link_parents_def add_edges_def empty_db_def has_key_def)
  then have db1: "db1 = empty_db\<lparr>db_labels := [(''b'', \<lparr>row_names = PList [], row_implicit = False\<rparr>)]\<rparr>"
    by (simp add: create_label_def link_parents_def add_edges_def empty_db_def has_key_def)
  obtain db2 r2 where 2: "create_label db1 ''a'' [''A''] [''b''] = Some (Inr (db2, r2))" "db_edges db2 = [(''a'', ''b'')]"
    by (simp add: db1 create_label_def link_parents_def add_edges_def empty_db_def has_key_def
      would_create_cycle_iff acyclic_def)
  have "label_step\<^sup>*\<^sup>* empty_db db2"
    using label_step.create [OF 1] label_step.create [OF 2(1)] by (meson rtranclp.simps)
  moreover have "(''a'', ''b'') \<in> (set (db_edges db2))\<^sup>*" by (simp add: 2(2) r_into_rtrancl)
  ultimately show ?thesis using label_tables_stay_acyclic [of db2 "''b''" "''a''"] 1 2(1)
    by (intro exI [of _ r1] exI [of _ db1] exI [of _ "(db2, r2)"]) simp
qed

text \<open>C24. Updating a label always returns. It succeeds exactly when the new hierarchy, in which the
  given parents replace the old ones, has no cycle and no parent is named twice; then the table holds
  exactly that hierarchy. A reported cycle is a real one, through one of the given parents; a parent
  named twice is an integrity error.\<close>

theorem update_label_exact:
  fixes ps :: "str list"
  assumes "db_ok db" and "has_key (db_labels db) l"
  defines "wanted \<equiv> {e \<in> set (db_edges db). fst e \<noteq> l} \<union> Pair l ` set ps"
  shows "(\<exists>db' r. update_label db l names ps = Some (Inr (db', r)) \<and> acyclic wanted \<and> distinct ps \<and>
      set (db_edges db') = wanted \<and> db_post_labels db' = db_post_labels db) \<or>
    (\<exists>p\<in>set ps. update_label db l names ps = Some (Inl (CycleError p)) \<and> \<not> acyclic wanted) \<or>
    (update_label db l names ps = Some (Inl IntegrityError) \<and> acyclic wanted \<and> \<not> distinct ps)"
proof -
  obtain row where row: "dget (db_labels db) l = Some row" using assms(2) by (auto simp: has_key_def)
  note link = update_label_link [OF assms(1) row, where names = names]
  show ?thesis
  proof (rule link_parents_cases [OF link(2,3), of ps], unfold link(1) [symmetric], goal_cases)
    case (4 db')
    then have "distinct ps" by (auto simp: db_ok_def distinct_map inj_on_def)
    with 4 show ?case by (auto simp: wanted_def)
  qed (auto simp: wanted_def)
qed

theorem update_label_exact_witness:
  "update_label demo_labels ''b'' [] [''a''] = Some (Inl (CycleError ''a''))"
proof -
  have "(''b'', ''b'') \<in> {(''a'', ''b''), (''b'', ''a'')}\<^sup>+"
    by (meson insertCI trancl.simps)
  then have "\<not> acyclic {(''a'', ''b''), (''b'', ''a'')}" by (auto simp: acyclic_def)
  moreover have "{e \<in> set (db_edges demo_labels). fst e \<noteq> ''b''} \<union> Pair ''b'' ` set [''a''] =
      {(''a'', ''b''), (''b'', ''a'')}" by (auto simp: demo_labels_def)
  moreover have "has_key (db_labels demo_labels) ''b''" by (simp add: demo_labels_def has_key_def)
  ultimately show ?thesis
    using update_label_exact [OF demo_labels_ok(1), where l = "''b''" and ps = "[''a'']" and names = "[]"] by simp
qed

text \<open>C25. The batch query always ends, also on a cyclic table, and gives every seed exactly its
  descendants, itself included.\<close>

theorem descendants_batch_total:
  "\<exists>m. get_label_descendants_batch db ids = Some m \<and> map fst m = remdups ids \<and>
     list_all (\<lambda>(i, ds). set ds = {d. (d, i) \<in> (set (db_edges db))\<^sup>*}) m"
proof -
  obtain rows where rows: "cte_union (descendant_rows (db_edges db)) (seed_rows ids) (seed_rows ids) = Some rows"
    "\<And>i d. (i, d) \<in> set rows \<longleftrightarrow> i \<in> set ids \<and> (d, i) \<in> (set (db_edges db))\<^sup>*"
    by (rule batch_rows [of "db_edges db" ids]) blast
  have "set (map snd (filter (\<lambda>r. fst r = i) rows)) = {d. (d, i) \<in> (set (db_edges db))\<^sup>*}"
    if "i \<in> set ids" for i
    using that rows(2) by (force simp: image_iff)
  then show ?thesis
    by (auto simp: get_label_descendants_batch_def rows(1) list_all_iff comp_def)
qed



end
