(* ===== verification/LabelApi.thy ===== *)
theory LabelApi
  imports LabelConfig LabelStore StorageQuota GitService
begin

text \<open>
  The label endpoints of \<^verbatim>\<open>backend/api/labels.py\<close> with the request schemas of
  \<^verbatim>\<open>backend/schemas/label.py\<close>. A request works on a copy of the label tables (the session) that
  becomes the stored one when the session commits. Whether the commit fails is given by the
  environment; \<open>le_restore_io\<close> are the faults of the system calls made after such a failure.
  A handler that would not return (a recursive query that does not end) is \<open>None\<close>.
\<close>

record 'g label_env =
  le_ext :: externals
  le_site :: site_externals
  le_io :: io_faults
  le_restore_io :: io_faults
  le_git :: "'g git_run"
  le_commit_fails :: bool

record 'g label_server =
  la_dir :: path
  la_fs :: fs
  la_db :: label_db
  la_labels :: "label_def dict"
  la_site :: site_config
  la_repo :: 'g
  la_tracker :: tracker

datatype api_error = ApiHttp http_error | ApiQuota | ApiRaises

section \<open>Requests\<close>

text \<open>\<open>LABEL_ID_PATTERN\<close>; \<open>$\<close> also matches before a final newline.\<close>

definition id_char :: "char \<Rightarrow> bool" where
  "id_char c \<longleftrightarrow> (let n = of_char c :: nat in
     (48 \<le> n \<and> n \<le> 57) \<or> (65 \<le> n \<and> n \<le> 90) \<or> (97 \<le> n \<and> n \<le> 122))"

definition label_id_ok :: "str \<Rightarrow> bool" where
  "label_id_ok v \<longleftrightarrow> 1 \<le> length v \<and> length v \<le> 100 \<and>
     (let w = removesuffix v [CHR 0x0A] in w \<noteq> [] \<and> id_char (hd w) \<and>
       list_all (\<lambda>c. id_char c \<or> c = CHR ''_'' \<or> c = CHR ''-'') w)"

definition names_ok :: "str list \<Rightarrow> bool" where
  "names_ok names \<longleftrightarrow> list_all (\<lambda>name. strip name \<noteq> []) names"

datatype label_request =
    CreateLabel str "str list" "str list"
  | UpdateLabel str "str list" "str list"
  | DeleteLabel str

fun request_valid :: "label_request \<Rightarrow> bool" where
  "request_valid (CreateLabel i names ps) \<longleftrightarrow> label_id_ok i \<and> names_ok names \<and> list_all label_id_ok ps"
| "request_valid (UpdateLabel i names ps) \<longleftrightarrow> names_ok names \<and> list_all label_id_ok ps"
| "request_valid (DeleteLabel i) \<longleftrightarrow> True"

section \<open>Writing and committing\<close>

definition labels_path :: "'g label_server \<Rightarrow> path" where
  "labels_path s = la_dir s @ [''labels.toml'']"

text \<open>\<open>content_manager.reload_config\<close>: both files are parsed before either result is kept.\<close>

definition reload_labels :: "'g label_env \<Rightarrow> io_faults \<Rightarrow> 'g label_server \<Rightarrow> 'g label_server option" where
  "reload_labels E io s =
     Option.bind (parse_site_config io (le_ext E) (le_site E) (la_fs s) (la_dir s)) (\<lambda>site.
     map_option (\<lambda>labs. s\<lparr>la_site := site, la_labels := labs\<rparr>)
       (parse_labels_config io (le_ext E) (la_fs s) (la_dir s)))"

text \<open>\<open>write_labels_config\<close> and \<open>reload_config\<close>. \<open>Inl True\<close>: the write failed with an \<open>OSError\<close>;
  \<open>Inl False\<close>: another exception, which no handler catches.\<close>

definition write_and_reload ::
  "'g label_env \<Rightarrow> io_faults \<Rightarrow> label_def dict \<Rightarrow> 'g label_server \<Rightarrow> (bool \<times> 'g label_server) + 'g label_server" where
  "write_and_reload E io labs s = (case serialize_labels_config (le_ext E) labs of
     None \<Rightarrow> Inl (False, s)
   | Some text \<Rightarrow> (case atomic_write io (la_fs s) (labels_path s) text of
       None \<Rightarrow> Inl (True, s)
     | Some F \<Rightarrow> (case reload_labels E io (s\<lparr>la_fs := F\<rparr>) of
         None \<Rightarrow> Inl (False, s\<lparr>la_fs := F\<rparr>)
       | Some s' \<Rightarrow> Inr s')))"

definition persist_labels_and_commit ::
  "'g label_env \<Rightarrow> label_db \<Rightarrow> label_def dict \<Rightarrow> str \<Rightarrow> 'g label_server \<Rightarrow> 'g label_server \<times> api_error option" where
  "persist_labels_and_commit E session labs message s =
     (let old_labels = la_labels s in
      case write_and_reload E (le_io E) labs s of
        Inl (True, s1) \<Rightarrow> (s1, Some (ApiHttp (HTTPException 500 ''Failed to persist label to filesystem'')))
      | Inl (False, s1) \<Rightarrow> (s1, Some ApiRaises)
      | Inr s1 \<Rightarrow>
          if le_commit_fails E then
            (case write_and_reload E (le_restore_io E) old_labels s1 of
               Inl (True, s2) \<Rightarrow> (s2, Some (ApiHttp (HTTPException 500 ''Failed to commit label changes'')))
             | Inl (False, s2) \<Rightarrow> (s2, Some ApiRaises)
             | Inr s2 \<Rightarrow> (s2, Some (ApiHttp (HTTPException 500 ''Failed to commit label changes''))))
          else (s1\<lparr>la_db := session, la_repo := fst (try_commit (le_git E) message (la_repo s1))\<rparr>, None))"

text \<open>The quota check before the write, and the adjustment after it.\<close>

definition persist_within_quota ::
  "'g label_env \<Rightarrow> bool \<Rightarrow> label_db \<Rightarrow> label_def dict \<Rightarrow> str \<Rightarrow> 'g label_server \<Rightarrow> 'g label_server \<times> api_error option" where
  "persist_within_quota E checked session labs message s =
     (let file_size = (\<lambda>t. tracked_file_size (le_io E) (la_fs t) (la_tracker t) (labels_path t));
          old_labels_size = file_size s in
      case (if checked then serialize_labels_config (le_ext E) labs else Some []) of
        None \<Rightarrow> (s, Some ApiRaises)
      | Some text \<Rightarrow>
          if checked \<and> \<not> require_quota (la_tracker s) (int (length text) - int old_labels_size)
          then (s, Some ApiQuota)
          else (case persist_labels_and_commit E session labs message s of
              (s', Some e) \<Rightarrow> (s', Some e)
            | (s', None) \<Rightarrow>
                (s'\<lparr>la_tracker := adjust (la_tracker s') (int (file_size s') - int old_labels_size)\<rparr>, None)))"

section \<open>Endpoints\<close>

definition quoted :: "str \<Rightarrow> str" where
  "quoted s = [CHR 0x27] @ s @ [CHR 0x27]"

definition missing_parent :: "label_db \<Rightarrow> str list \<Rightarrow> str option" where
  "missing_parent db ps = List.find (\<lambda>p. get_label db p False = None) ps"

definition new_label_def :: "str \<Rightarrow> str list \<Rightarrow> str list \<Rightarrow> label_def" where
  "new_label_def i names ps =
     \<lparr>ld_id = i, ld_names = PList (map PStr names), ld_parents = ps, ld_implicit = False\<rparr>"

definition create_label_endpoint ::
  "'g label_env \<Rightarrow> str \<Rightarrow> str list \<Rightarrow> str list \<Rightarrow> 'g label_server \<Rightarrow> ('g label_server \<times> api_error option) option" where
  "create_label_endpoint E i names ps s = (case missing_parent (la_db s) ps of
     Some p \<Rightarrow> Some (s, Some (ApiHttp (HTTPException 404 (''Parent label '' @ quoted p @ '' not found''))))
   | None \<Rightarrow> map_option (\<lambda>result. case result of
         Inl (CycleError p) \<Rightarrow>
           (s, Some (ApiHttp (HTTPException 409 (''Adding parent '' @ quoted p @ '' would create a cycle''))))
       | Inl IntegrityError \<Rightarrow> (s, Some ApiRaises)
       | Inr (session, None) \<Rightarrow> (s, Some (ApiHttp (HTTPException 409 ''Label already exists'')))
       | Inr (session, Some r) \<Rightarrow> persist_within_quota E True session
           (dset i (new_label_def i names ps) (la_labels s)) (''Create label: '' @ i) s)
       (create_label (la_db s) i names ps))"

definition update_label_endpoint ::
  "'g label_env \<Rightarrow> str \<Rightarrow> str list \<Rightarrow> str list \<Rightarrow> 'g label_server \<Rightarrow> ('g label_server \<times> api_error option) option" where
  "update_label_endpoint E i names ps s =
     (if get_label (la_db s) i False = None
      then Some (s, Some (ApiHttp (HTTPException 404 ''Label not found'')))
      else (case missing_parent (la_db s) ps of
        Some p \<Rightarrow> Some (s, Some (ApiHttp (HTTPException 404 (''Parent label '' @ quoted p @ '' not found''))))
      | None \<Rightarrow> map_option (\<lambda>result. case result of
            Inl (CycleError p) \<Rightarrow>
              (s, Some (ApiHttp (HTTPException 409 (''Adding parent '' @ quoted p @ '' would create a cycle''))))
          | Inl IntegrityError \<Rightarrow> (s, Some ApiRaises)
          | Inr (session, None) \<Rightarrow>
              (s, Some (ApiHttp (HTTPException 404 ''Label was deleted during update'')))
          | Inr (session, Some r) \<Rightarrow> persist_within_quota E True session
              (dset i (new_label_def i names ps) (la_labels s)) (''Update label: '' @ i) s)
          (update_label (la_db s) i names ps)))"

definition without_parent :: "str \<Rightarrow> label_def \<Rightarrow> label_def" where
  "without_parent i ld = (if i \<in> set (ld_parents ld)
     then \<lparr>ld_id = ld_id ld, ld_names = ld_names ld,
           ld_parents = filter (\<lambda>p. p \<noteq> i) (ld_parents ld), ld_implicit = False\<rparr> else ld)"

definition delete_label_endpoint ::
  "'g label_env \<Rightarrow> str \<Rightarrow> 'g label_server \<Rightarrow> ('g label_server \<times> api_error option) option" where
  "delete_label_endpoint E i s = Some (case delete_label (la_db s) i of
     (session, False) \<Rightarrow> (s, Some (ApiHttp (HTTPException 404 ''Label not found'')))
   | (session, True) \<Rightarrow> persist_within_quota E False session
       (map (\<lambda>(k, ld). (k, without_parent i ld)) (dpop i (la_labels s))) (''Delete label: '' @ i) s)"

fun handle_label :: "'g label_env \<Rightarrow> label_request \<Rightarrow> 'g label_server \<Rightarrow> ('g label_server \<times> api_error option) option" where
  "handle_label E (CreateLabel i names ps) s = create_label_endpoint E i names ps s"
| "handle_label E (UpdateLabel i names ps) s = update_label_endpoint E i names ps s"
| "handle_label E (DeleteLabel i) s = delete_label_endpoint E i s"

section \<open>The file and the tables in step\<close>

definition config_edges :: "label_def dict \<Rightarrow> edge set" where
  "config_edges labs = {(k, p). \<exists>ld. dget labs k = Some ld \<and> p \<in> set (ld_parents ld)}"

text \<open>The tables hold the hierarchy that \<^verbatim>\<open>labels.toml\<close> defines.\<close>

definition in_step :: "'g label_env \<Rightarrow> 'g label_server \<Rightarrow> bool" where
  "in_step E s \<longleftrightarrow> db_ok (la_db s) \<and> edges_known (la_db s) \<and> own_entries (la_labels s) \<and>
     parse_labels_config (le_io E) (le_ext E) (la_fs s) (la_dir s) = Some (la_labels s) \<and>
     set (db_edges (la_db s)) = config_edges (la_labels s) \<and>
     set (dkeys (la_labels s)) \<subseteq> set (dkeys (db_labels (la_db s)))"

text \<open>What a request relies on: the TOML library reads back what it writes, both configuration files
  can be read, and after a failed database commit the old definitions can be written again.\<close>

definition label_calm :: "'g label_env \<Rightarrow> 'g label_server \<Rightarrow> bool" where
  "label_calm E s \<longleftrightarrow> rereads (toml_labels (le_ext E)) (toml_dump_labels (le_ext E)) \<and>
     \<not> le_io E ReadConfig (labels_path s) \<and> \<not> le_restore_io E ReadConfig (labels_path s) \<and>
     parse_site_config (le_io E) (le_ext E) (le_site E) (la_fs s) (la_dir s) \<noteq> None \<and>
     parse_site_config (le_restore_io E) (le_ext E) (le_site E) (la_fs s) (la_dir s) \<noteq> None \<and>
     serialize_labels_config (le_ext E) (la_labels s) \<noteq> None \<and>
     \<not> le_restore_io E AtomicWrite (labels_path s)"

lemma parse_site_same:
  assumes "atomic_write io F (d @ [''labels.toml'']) b = Some F'"
  shows "parse_site_config io' X S F' d = parse_site_config io' X S F d"
proof -
  have "read_file F' (d @ [''index.toml'']) = read_file F (d @ [''index.toml''])"
    using assms read_write_file unfolding atomic_write_def by fastforce
  moreover have "is_dir F' p = is_dir F p" for p
    using assms by (auto simp: atomic_write_def write_file_def is_dir_def split: if_splits)
  ultimately show ?thesis
    by (simp add: parse_site_config_def path_exists_def is_file_def read_config_text_def Let_def)
qed

text \<open>A write that works leaves the given definitions in the file and in memory.\<close>

lemma write_and_reload_cases:
  assumes toml: "rereads (toml_labels (le_ext E)) (toml_dump_labels (le_ext E))"
    and readable: "\<not> io ReadConfig (labels_path s)" and own: "own_entries labs"
    and site: "parse_site_config io (le_ext E) (le_site E) (la_fs s) (la_dir s) \<noteq> None"
  obtains (failed) oserr where "write_and_reload E io labs s = Inl (oserr, s)"
      "serialize_labels_config (le_ext E) labs = None \<or>
        (\<exists>t. serialize_labels_config (le_ext E) labs = Some t \<and> atomic_write io (la_fs s) (labels_path s) t = None)"
  | (wrote) t F site' where "write_and_reload E io labs s =
        Inr (s\<lparr>la_fs := F, la_site := site', la_labels := labs\<rparr>)"
      "atomic_write io (la_fs s) (labels_path s) t = Some F"
      "parse_labels_config io (le_ext E) F (la_dir s) = Some labs"
      "\<And>io'. \<not> io' ReadConfig (labels_path s) \<Longrightarrow> parse_labels_config io' (le_ext E) F (la_dir s) = Some labs"
proof (cases "serialize_labels_config (le_ext E) labs")
  case None
  then show ?thesis using failed [of False] by (simp add: write_and_reload_def)
next
  case (Some t)
  show ?thesis
  proof (cases "atomic_write io (la_fs s) (labels_path s) t")
    case None
    then show ?thesis using failed [of True] Some by (simp add: write_and_reload_def)
  next
    case w: (Some F)
    have stored: "write_labels_config io (le_ext E) (la_fs s) (la_dir s) labs = Some F"
      using Some w by (simp add: write_labels_config_def labels_path_def)
    have parse: "parse_labels_config io (le_ext E) F (la_dir s) = Some labs"
      using labels_roundtrip [OF toml own stored] readable by (simp add: labels_path_def)
    have other: "parse_labels_config io' (le_ext E) F (la_dir s) = Some labs"
      if "\<not> io' ReadConfig (labels_path s)" for io'
    proof -
      have "read_config_text io' F (labels_path s) = read_config_text io F (labels_path s)"
        using that readable by (simp add: read_config_text_def)
      then show ?thesis using parse by (simp only: parse_labels_config_def labels_path_def Let_def)
    qed
    obtain site' where "parse_site_config io (le_ext E) (le_site E) F (la_dir s) = Some site'"
      using site parse_site_same [OF w [unfolded labels_path_def]] by auto
    then have "write_and_reload E io labs s = Inr (s\<lparr>la_fs := F, la_site := site', la_labels := labs\<rparr>)"
      using Some w parse by (simp add: write_and_reload_def reload_labels_def)
    then show ?thesis using w parse other by (rule wrote)
  qed
qed

lemma in_step_cong:
  assumes "in_step E s" "la_db t = la_db s" "la_labels t = la_labels s" "la_dir t = la_dir s"
    and "parse_labels_config (le_io E) (le_ext E) (la_fs t) (la_dir s) = Some (la_labels s)"
  shows "in_step E t"
  using assms by (simp add: in_step_def)

definition answered ::
  "'g label_env \<Rightarrow> 'g label_server \<Rightarrow> label_db \<Rightarrow> label_def dict \<Rightarrow> 'g label_server \<times> api_error option \<Rightarrow> bool" where
  "answered E s session labs result \<longleftrightarrow> in_step E (fst result) \<and>
     (snd result \<noteq> None \<longrightarrow> la_db (fst result) = la_db s \<and> la_labels (fst result) = la_labels s \<and>
        la_repo (fst result) = la_repo s) \<and>
     (snd result = None \<longrightarrow> la_db (fst result) = session \<and> la_labels (fst result) = labs)"

lemma persist_answered:
  assumes step: "in_step E s" and calm: "label_calm E s" and own: "own_entries labs"
    and session: "db_ok session" "edges_known session" "set (db_edges session) = config_edges labs"
      "set (dkeys labs) \<subseteq> set (dkeys (db_labels session))"
  shows "answered E s session labs (persist_labels_and_commit E session labs message s)"
proof -
  have toml: "rereads (toml_labels (le_ext E)) (toml_dump_labels (le_ext E))"
    and readable: "\<not> le_io E ReadConfig (labels_path s)" "\<not> le_restore_io E ReadConfig (labels_path s)"
    and site: "parse_site_config (le_io E) (le_ext E) (le_site E) (la_fs s) (la_dir s) \<noteq> None"
      "parse_site_config (le_restore_io E) (le_ext E) (le_site E) (la_fs s) (la_dir s) \<noteq> None"
    and old: "serialize_labels_config (le_ext E) (la_labels s) \<noteq> None" "own_entries (la_labels s)"
    and restore: "\<not> le_restore_io E AtomicWrite (labels_path s)"
    using calm step by (auto simp: label_calm_def in_step_def)
  show ?thesis
  proof (rule write_and_reload_cases [OF toml readable(1) own site(1)])
    fix oserr assume "write_and_reload E (le_io E) labs s = Inl (oserr, s)"
    then show ?thesis using step by (cases oserr) (simp_all add: persist_labels_and_commit_def answered_def)
  next
    fix t F site' let ?s1 = "s\<lparr>la_fs := F, la_site := site', la_labels := labs\<rparr>"
    assume w: "write_and_reload E (le_io E) labs s = Inr ?s1"
      and F: "atomic_write (le_io E) (la_fs s) (labels_path s) t = Some F"
      and parse: "parse_labels_config (le_io E) (le_ext E) F (la_dir s) = Some labs"
    show ?thesis
    proof (cases "le_commit_fails E")
      case False
      then show ?thesis using w parse own session
        by (simp add: persist_labels_and_commit_def answered_def in_step_def)
    next
      case True
      have site': "parse_site_config (le_restore_io E) (le_ext E) (le_site E) (la_fs ?s1) (la_dir ?s1) \<noteq> None"
        using site(2) parse_site_same [OF F [unfolded labels_path_def]] by simp
      have path: "labels_path ?s1 = labels_path s" by (simp add: labels_path_def)
      have can: "atomic_write (le_restore_io E) (la_fs ?s1) (labels_path ?s1) b \<noteq> None" for b
        using F restore by (auto simp: path atomic_write_def write_file_def is_dir_def split: if_splits)
      show ?thesis
      proof (rule write_and_reload_cases [OF toml _ old(2) site'])
        show "\<not> le_restore_io E ReadConfig (labels_path ?s1)" using readable(2) by (simp add: path)
      next
        fix oserr assume "serialize_labels_config (le_ext E) (la_labels s) = None \<or>
          (\<exists>t. serialize_labels_config (le_ext E) (la_labels s) = Some t \<and>
             atomic_write (le_restore_io E) (la_fs ?s1) (labels_path ?s1) t = None)"
        then show ?thesis using old(1) can by blast
      next
        fix t' F' site''
        assume w': "write_and_reload E (le_restore_io E) (la_labels s) ?s1 =
            Inr (?s1\<lparr>la_fs := F', la_site := site'', la_labels := la_labels s\<rparr>)"
          and parse': "\<And>io'. \<not> io' ReadConfig (labels_path ?s1) \<Longrightarrow>
            parse_labels_config io' (le_ext E) F' (la_dir ?s1) = Some (la_labels s)"
        have "parse_labels_config (le_io E) (le_ext E) F' (la_dir s) = Some (la_labels s)"
          using parse' [of "le_io E"] readable(1) by (simp add: path)
        then show ?thesis using True w w' step
          by (simp add: persist_labels_and_commit_def answered_def in_step_def)
      qed
    qed
  qed
qed

lemma in_step_tracker [simp]: "in_step E (s\<lparr>la_tracker := t\<rparr>) = in_step E s"
  by (simp add: in_step_def)

lemma persist_quota_answered:
  assumes step: "in_step E s"
    and persisted: "answered E s session labs (persist_labels_and_commit E session labs message s)"
  shows "answered E s session labs (persist_within_quota E checked session labs message s)"
proof -
  have refused: "answered E s session labs (s, Some e)" for e
    using step by (simp add: answered_def)
  obtain s' r where p: "persist_labels_and_commit E session labs message s = (s', r)" by fastforce
  have "answered E s session labs (s'\<lparr>la_tracker := t\<rparr>, None)" if "r = None" for t
    using persisted that by (simp add: answered_def p)
  then show ?thesis
    using persisted refused by (auto simp: persist_within_quota_def p Let_def split: option.split)
qed

section \<open>What the requests do to the hierarchy\<close>

lemma config_edges_dset:
  "config_edges (dset i ld labs) = {e \<in> config_edges labs. fst e \<noteq> i} \<union> Pair i ` set (ld_parents ld)"
  by (auto simp: config_edges_def split: if_splits)

lemma dget_map_values: "dget (map (\<lambda>(k, v). (k, f v)) d) k = map_option f (dget d k)"
  by (induction d) auto

lemma parents_without [simp]: "set (ld_parents (without_parent i ld)) = set (ld_parents ld) - {i}"
  by (auto simp: without_parent_def)

lemma config_edges_drop:
  "config_edges (map (\<lambda>(k, ld). (k, without_parent i ld)) (dpop i labs)) =
    {e \<in> config_edges labs. fst e \<noteq> i \<and> snd e \<noteq> i}"
  by (auto simp: config_edges_def dget_map_values split: if_splits)

lemma own_entries_dget:
  "own_entries labs \<longleftrightarrow> distinct (dkeys labs) \<and>
     (\<forall>k ld. dget labs k = Some ld \<longrightarrow> ld_id ld = k \<and> \<not> ld_implicit ld)"
  unfolding own_entries_def by (auto dest: map_of_SomeD)

lemma own_entries_dset:
  "own_entries labs \<Longrightarrow> ld_id ld = i \<Longrightarrow> \<not> ld_implicit ld \<Longrightarrow> own_entries (dset i ld labs)"
  by (auto simp: own_entries_dget dset_distinct split: if_splits)

lemma dkeys_map_values: "dkeys (map (\<lambda>(k, v). (k, f v)) d) = dkeys d"
  by (induction d) auto

lemma without_parent_own [simp]:
  "ld_id (without_parent i ld) = ld_id ld" "ld_implicit (without_parent i ld) \<Longrightarrow> ld_implicit ld"
  by (auto simp: without_parent_def split: if_splits)

lemma keys_map_image [simp]: "(\<lambda>x. fst (case x of (k, v) \<Rightarrow> (k, f v))) ` S = fst ` S"
  by force

lemma fst_dset [simp]: "fst ` set (dset k v d) = insert k (fst ` set d)"
  using dset_keys [of k v d] by simp

lemma own_entries_drop:
  "own_entries labs \<Longrightarrow> own_entries (map (\<lambda>(k, ld). (k, without_parent i ld)) (dpop i labs))"
  unfolding own_entries_dget dkeys_map_values dget_map_values
  by (auto simp: dpop_distinct split: if_splits dest: without_parent_own(2))

text \<open>A session that the service accepted, with the definitions the endpoint writes.\<close>

definition session_fits :: "label_db \<Rightarrow> label_def dict \<Rightarrow> bool" where
  "session_fits session labs \<longleftrightarrow> own_entries labs \<and> db_ok session \<and> edges_known session \<and>
     set (db_edges session) = config_edges labs \<and> set (dkeys labs) \<subseteq> set (dkeys (db_labels session))"

lemma persist_fits:
  assumes "in_step E s" "label_calm E s" "session_fits session labs"
  shows "answered E s session labs (persist_within_quota E checked session labs message s)"
  using assms persist_answered [OF assms(1,2)]
  by (intro persist_quota_answered) (auto simp: session_fits_def)

lemma create_fits:
  assumes step: "in_step E s" and run: "create_label (la_db s) i names ps = Some (Inr (session, Some r))"
  shows "session_fits session (dset i (new_label_def i names ps) (la_labels s))"
proof -
  have new: "\<not> has_key (db_labels (la_db s)) i" using run by (auto simp: create_label_def split: if_splits)
  then have "link_parents i ps (la_db s\<lparr>db_labels := db_labels (la_db s) @
      [(i, \<lparr>row_names = PList (map PStr names), row_implicit = False\<rparr>)]\<rparr>) = Some (Inr (session, Some r))"
    using run by (simp add: create_label_def)
  note edges = link_parents_edges [OF this]
  have "i \<notin> set (dkeys (la_labels s))" using step new by (auto simp: in_step_def has_key_iff)
  then have "dget (la_labels s) i = None" by (simp add: dget_None_iff)
  then have "{e \<in> config_edges (la_labels s). fst e \<noteq> i} = config_edges (la_labels s)"
    by (auto simp: config_edges_def)
  then have "set (db_edges session) = config_edges (dset i (new_label_def i names ps) (la_labels s))"
    using step by (simp add: edges in_step_def config_edges_dset new_label_def_def)
  moreover have "set (dkeys (dset i (new_label_def i names ps) (la_labels s))) \<subseteq> set (dkeys (db_labels session))"
    using step unfolding dset_keys by (auto simp: edges in_step_def)
  ultimately show ?thesis
    using step create_label_ok [OF _ _ run]
    by (simp add: session_fits_def in_step_def own_entries_dset new_label_def_def)
qed

lemma update_fits:
  assumes step: "in_step E s" and run: "update_label (la_db s) i names ps = Some (Inr (session, Some r))"
  shows "session_fits session (dset i (new_label_def i names ps) (la_labels s))"
proof -
  obtain row where row: "dget (db_labels (la_db s)) i = Some row"
    using run by (auto simp: update_label_def split: option.splits)
  have ok: "db_ok (la_db s)" using step by (simp add: in_step_def)
  note edges = link_parents_edges [OF run [unfolded update_label_link(1) [OF ok row]]]
  have "set (db_edges session) = config_edges (dset i (new_label_def i names ps) (la_labels s))"
    using step by (simp add: edges in_step_def config_edges_dset new_label_def_def)
  moreover have "set (dkeys (dset i (new_label_def i names ps) (la_labels s))) \<subseteq> set (dkeys (db_labels session))"
    using step by (auto simp: edges in_step_def)
  ultimately show ?thesis
    using step update_label_ok [OF _ _ run]
    by (simp add: session_fits_def in_step_def own_entries_dset new_label_def_def)
qed

lemma delete_fits:
  assumes step: "in_step E s" and run: "delete_label (la_db s) i = (session, True)"
  shows "session_fits session (map (\<lambda>(k, ld). (k, without_parent i ld)) (dpop i (la_labels s)))"
proof -
  have session: "session = fst (delete_label (la_db s) i)" "has_key (db_labels (la_db s)) i"
    using run by (auto simp: delete_label_def split: if_splits)
  have ok: "db_ok session" "edges_known session"
    using delete_label_ok [of "la_db s" i] step by (simp_all add: session in_step_def)
  have "set (db_edges session) = {e \<in> set (db_edges (la_db s)). fst e \<noteq> i \<and> snd e \<noteq> i}"
    using session(2) by (simp add: session(1) delete_label_def)
  then have "set (db_edges session) =
      config_edges (map (\<lambda>(k, ld). (k, without_parent i ld)) (dpop i (la_labels s)))"
    using step by (simp add: in_step_def config_edges_drop)
  moreover have labs: "db_labels session = dpop i (db_labels (la_db s))"
    using session(2) by (simp add: session(1) delete_label_def)
  have "set (dkeys (la_labels s)) \<subseteq> set (dkeys (db_labels (la_db s)))"
    using step by (simp add: in_step_def)
  then have "set (dkeys (dpop i (la_labels s))) \<subseteq> set (dkeys (db_labels session))"
    unfolding labs dpop_keys by blast
  ultimately show ?thesis
    using step ok by (simp add: session_fits_def in_step_def own_entries_drop)
qed

lemma refused_answer: "in_step E s \<Longrightarrow> answered E s session labs (s, Some e)"
  by (simp add: answered_def)

text \<open>What a request promises: it returns, file and tables are in step again, and an error leaves
  the tables, the definitions and the repository as they were.\<close>

definition label_promise :: "'g label_env \<Rightarrow> 'g label_server \<Rightarrow> ('g label_server \<times> api_error option) option \<Rightarrow> bool" where
  "label_promise E s result \<longleftrightarrow> (\<exists>session labs answer. result = Some answer \<and> answered E s session labs answer)"

lemma label_promiseI: "answered E s session labs answer \<Longrightarrow> label_promise E s (Some answer)"
  by (auto simp: label_promise_def)

lemma create_returns:
  assumes "in_step E s" shows "create_label (la_db s) i names ps \<noteq> None"
proof (cases "has_key (db_labels (la_db s)) i")
  case False
  let ?db = "la_db s\<lparr>db_labels := db_labels (la_db s) @ [(i, \<lparr>row_names = PList (map PStr names), row_implicit = False\<rparr>)]\<rparr>"
  have "acyclic (set (db_edges (la_db s)))" using assms unfolding in_step_def db_ok_def by blast
  then show ?thesis using False by (simp add: create_label_def link_parents_def first_cycle_find)
qed (simp add: create_label_def)

lemma update_returns:
  assumes "in_step E s" shows "update_label (la_db s) i names ps \<noteq> None"
proof (cases "dget (db_labels (la_db s)) i")
  case (Some row)
  have ok: "db_ok (la_db s)" using assms by (simp add: in_step_def)
  note link = update_label_link [OF ok Some, where names = names]
  show ?thesis using link(2) unfolding link(1) by (simp add: link_parents_def first_cycle_find db_ok_def)
qed (simp add: update_label_def)

lemma create_promise:
  assumes "in_step E s" "label_calm E s" shows "label_promise E s (create_label_endpoint E i names ps s)"
  using create_returns [OF assms(1), of i names ps] create_fits [OF assms(1)] persist_fits [OF assms]
    refused_answer [OF assms(1)]
  by (fastforce simp: create_label_endpoint_def intro: label_promiseI
    split: option.splits sum.splits label_error.splits)

lemma update_promise:
  assumes "in_step E s" "label_calm E s" shows "label_promise E s (update_label_endpoint E i names ps s)"
  using update_returns [OF assms(1), of i names ps] update_fits [OF assms(1)] persist_fits [OF assms]
    refused_answer [OF assms(1)]
  by (fastforce simp: update_label_endpoint_def intro: label_promiseI
    split: option.splits sum.splits label_error.splits)

lemma delete_promise:
  assumes "in_step E s" "label_calm E s" shows "label_promise E s (delete_label_endpoint E i s)"
  using delete_fits [OF assms(1)] persist_fits [OF assms] refused_answer [OF assms(1)]
  by (fastforce simp: delete_label_endpoint_def intro: label_promiseI split: prod.splits bool.splits)

lemma handle_promise: "in_step E s \<Longrightarrow> label_calm E s \<Longrightarrow> label_promise E s (handle_label E req s)"
  by (cases req) (simp_all add: create_promise update_promise delete_promise)

section \<open>Properties\<close>

definition demo_toml :: externals where
  "demo_toml = (let v = PDict [(''a'', PDict [(''names'', PList [])])] in
     (echo_externals PNone)\<lparr>
       toml_labels := (\<lambda>s. if s = ''e'' then Some (PDict []) else if s = ''t'' then Some v else None),
       toml_dump_labels := (\<lambda>w. if w = PDict [] then Some ''e'' else if w = v then Some ''t'' else None)\<rparr>)"

definition demo_label_env :: "bool \<Rightarrow> unit label_env" where
  "demo_label_env fails = \<lparr>le_ext = demo_toml,
     le_site = \<lparr>site_loads = (\<lambda>s. None), site_dumps = (\<lambda>v. None), zone_known = (\<lambda>z. True)\<rparr>,
     le_io = (\<lambda>op p. False), le_restore_io = (\<lambda>op p. False),
     le_git = (\<lambda>r args. (r, RunTimeout)), le_commit_fails = fails\<rparr>"

definition demo_label_server :: "unit label_server" where
  "demo_label_server = \<lparr>la_dir = [''srv''], la_fs = \<lparr>files = [([''srv'', ''labels.toml''], ''e'')], dirs = [[''srv'']]\<rparr>,
     la_db = empty_db, la_labels = [], la_site = default_site_config, la_repo = (),
     la_tracker = \<lparr>tracked_dir = [''srv''], max_size = None, usage = 1\<rparr>\<rparr>"

lemma demo_label_start:
  "in_step (demo_label_env fails) demo_label_server" "label_calm (demo_label_env fails) demo_label_server"
proof -
  have e: "decode_utf8 ''e'' = Some ''e''" "universal_newlines ''e'' = ''e''"
    "decode_utf8 ''t'' = Some ''t''" "universal_newlines ''t'' = ''t''" by code_simp+
  note defs = demo_label_env_def demo_label_server_def demo_toml_def echo_externals_def Let_def
  show "in_step (demo_label_env fails) demo_label_server"
    using e by (simp add: in_step_def defs empty_db_def db_ok_def edges_known_def own_entries_def
      config_edges_def parse_labels_config_def read_config_text_def path_exists_def is_file_def read_file_def)
  show "label_calm (demo_label_env fails) demo_label_server"
    using e by (auto simp: label_calm_def defs rereads_def serialize_labels_config_def
      parse_site_config_def path_exists_def is_file_def is_dir_def read_file_def)
qed



text \<open>A parent named twice passes every check of the update request and ends in an integrity error
  that the endpoint does not catch.\<close>

theorem repeated_parent_is_unhandled:
  assumes "in_step E s" and "has_key (db_labels (la_db s)) i" and "has_key (db_labels (la_db s)) p"
    and "(p, i) \<notin> (set (db_edges (la_db s)))\<^sup>*"
  shows "handle_label E (UpdateLabel i names [p, p]) s = Some (s, Some ApiRaises)"
proof -
  have ok: "db_ok (la_db s)" using assms(1) by (simp add: in_step_def)
  obtain row where row: "dget (db_labels (la_db s)) i = Some row" using assms(2) by (auto simp: has_key_def)
  let ?E = "{e \<in> set (db_edges (la_db s)). fst e \<noteq> i}"
  have acyc: "acyclic ?E" using ok by (auto simp: db_ok_def intro: acyclic_subset)
  have "(p, i) \<notin> ?E\<^sup>*" using assms(4) rtrancl_mono [of ?E "set (db_edges (la_db s))"] by blast
  then have "first_cycle (filter (\<lambda>e. fst e \<noteq> i) (db_edges (la_db s))) i [p, p] = Some None"
    using acyc by (subst first_cycle_find) simp_all
  then have "update_label (la_db s) i names [p, p] = Some (Inl IntegrityError)"
    using row by (simp add: update_label_def link_parents_def add_edges_def)
  then show ?thesis
    using row assms(3) by (auto simp: update_label_endpoint_def missing_parent_def get_label_def has_key_def)
qed

theorem repeated_parent_is_unhandled_witness:
  "\<exists>s E. handle_label E (UpdateLabel ''a'' [] [''b'', ''b'']) (s :: unit label_server) = Some (s, Some ApiRaises)"
proof -
  let ?db = "empty_db\<lparr>db_labels := [(''a'', \<lparr>row_names = PList [], row_implicit = True\<rparr>),
    (''b'', \<lparr>row_names = PList [], row_implicit = True\<rparr>)]\<rparr>"
  let ?s = "demo_label_server\<lparr>la_db := ?db\<rparr>"
  have "in_step (demo_label_env False) ?s"
    using demo_label_start(1) [of False]
    by (simp add: in_step_def demo_label_server_def empty_db_def db_ok_def edges_known_def config_edges_def)
  then have "handle_label (demo_label_env False) (UpdateLabel ''a'' [] [''b'', ''b'']) ?s = Some (?s, Some ApiRaises)"
    by (rule repeated_parent_is_unhandled) (simp_all add: has_key_def empty_db_def)
  then show ?thesis by blast
qed

text \<open>The pattern of label identifiers lets one final newline through.\<close>

theorem label_id_accepts_newline:
  "label_id_ok [CHR ''a'', CHR 0x0A] \<and> \<not> label_id_ok [CHR 0x0A] \<and> \<not> label_id_ok ''-a'' \<and> label_id_ok ''a-1''"
  by code_simp

end
