(* ===== verification/RateLimit.thy ===== *)
theory RateLimit
  imports Prelude ContentFs
begin

text \<open>
  \<^verbatim>\<open>services/rate_limit_service.py\<close> and \<^verbatim>\<open>api/rate_limit.py\<close>: the sliding window of failed
  attempts. Times are microseconds since the epoch, the resolution of the clock; every reading of
  the clock is an argument. The limit of 10,000 keys is a parameter of the definitions that use it, so
  that small instances can be evaluated.
\<close>

type_synonym time = int

abbreviation seconds :: "int \<Rightarrow> time" where
  "seconds n \<equiv> n * 1000000"

type_synonym limiter = "time list dict"

definition max_keys :: nat where
  "max_keys = 10000"

definition clear :: "str \<Rightarrow> limiter \<Rightarrow> limiter" where
  "clear key l = dpop key l"

text \<open>\<open>attempts.popleft()\<close> while the oldest attempt is before the cutoff.\<close>

definition pop_expired :: "time \<Rightarrow> time list \<Rightarrow> time list" where
  "pop_expired cutoff attempts = dropWhile (\<lambda>t. t < cutoff) attempts"

definition prune :: "time \<Rightarrow> int \<Rightarrow> str \<Rightarrow> limiter \<Rightarrow> limiter \<times> time list option" where
  "prune now window key l = (case dget l key of
     None \<Rightarrow> (l, None)
   | Some attempts \<Rightarrow>
       (let attempts = pop_expired (now - seconds window) attempts in
        if attempts = [] then (dpop key l, None) else (dset key attempts l, Some attempts)))"

text \<open>\<open>int(x)\<close> cuts off towards zero. The second reading of the clock may be later.\<close>

definition trunc_seconds :: "time \<Rightarrow> int" where
  "trunc_seconds t = (if 0 \<le> t then t div 1000000 else - ((- t) div 1000000))"

definition is_limited :: "time \<Rightarrow> time \<Rightarrow> str \<Rightarrow> int \<Rightarrow> int \<Rightarrow> limiter \<Rightarrow> limiter \<times> (bool \<times> int)" where
  "is_limited now now' key limit window l = (case prune now window key l of
     (l', None) \<Rightarrow> (l', (False, 0))
   | (l', Some attempts) \<Rightarrow>
       if int (length attempts) < limit then (l', (False, 0))
       else (l', (True, max (trunc_seconds (hd attempts + seconds window - now') + 1) 1)))"

definition prune_all_expired :: "time \<Rightarrow> int \<Rightarrow> limiter \<Rightarrow> limiter" where
  "prune_all_expired now window l =
     filter (\<lambda>(k, dq). \<not> (dq = [] \<or> last dq < now - seconds window)) l"

definition add_failure :: "nat \<Rightarrow> time \<Rightarrow> time \<Rightarrow> str \<Rightarrow> int \<Rightarrow> limiter \<Rightarrow> limiter" where
  "add_failure limit_keys now now' key window l =
     (let l1 = (if has_key l key then l
          else dset key [] (if length l \<ge> limit_keys then prune_all_expired now' window l else l));
          attempts = (case dget l1 key of None \<Rightarrow> [] | Some xs \<Rightarrow> xs)
      in dset key (pop_expired (now - seconds window) attempts @ [now]) l1)"

section \<open>Requests\<close>

text \<open>\<open>is_trusted_proxy\<close>: the \<open>ipaddress\<close> parsers are parameters; \<open>None\<close> is a \<open>ValueError\<close>.\<close>

record 'a ip_lib =
  ip_address :: "str \<Rightarrow> 'a option"
  ip_network :: "str \<Rightarrow> 'a set option"

definition is_trusted_proxy :: "'a ip_lib \<Rightarrow> str \<Rightarrow> str list \<Rightarrow> bool" where
  "is_trusted_proxy L client_ip trusted_ips = (case ip_address L client_ip of
     None \<Rightarrow> False
   | Some addr \<Rightarrow> list_ex (\<lambda>entry.
       if CHR ''/'' \<in> set entry
       then (case ip_network L entry of None \<Rightarrow> False | Some net \<Rightarrow> addr \<in> net)
       else ip_address L entry = Some addr) trusted_ips)"

text \<open>The peer address (\<open>None\<close> or empty: unavailable) and the header \<^verbatim>\<open>X-Forwarded-For\<close>.\<close>

definition client_ip_from_request :: "'a ip_lib \<Rightarrow> str option \<Rightarrow> str option \<Rightarrow> str list \<Rightarrow> str" where
  "client_ip_from_request L peer forwarded trusted_proxy_ips =
     (let host = (case peer of Some h \<Rightarrow> if h = [] then ''unknown'' else h | None \<Rightarrow> ''unknown'') in
      case forwarded of
        None \<Rightarrow> host
      | Some fw \<Rightarrow> if fw \<noteq> [] \<and> is_trusted_proxy L host trusted_proxy_ips
          then strip (hd (split_on (CHR '','') fw)) else host)"

text \<open>\<open>Some retry_after\<close> is the response 429.\<close>

definition enforce_rate_limit :: "time \<Rightarrow> time \<Rightarrow> str \<Rightarrow> int \<Rightarrow> int \<Rightarrow> limiter \<Rightarrow> limiter \<times> int option" where
  "enforce_rate_limit now now' key limit window l =
     (let (l', (limited, retry_after)) = is_limited now now' key limit window l in
      (l', if limited then Some retry_after else None))"

definition record_failure_and_enforce ::
  "nat \<Rightarrow> time \<Rightarrow> str \<Rightarrow> int \<Rightarrow> int \<Rightarrow> limiter \<Rightarrow> limiter \<times> int option" where
  "record_failure_and_enforce limit_keys now key limit window l =
     enforce_rate_limit now now key limit window (add_failure limit_keys now now key window l)"

section \<open>The window\<close>

text \<open>The reference: the history of each key's failures since it was last cleared, and the part of it
  inside the window.\<close>

definition in_window :: "time \<Rightarrow> int \<Rightarrow> time list \<Rightarrow> time list" where
  "in_window now window h = filter (\<lambda>t. now - seconds window \<le> t) h"

definition attempts_of :: "limiter \<Rightarrow> str \<Rightarrow> time list" where
  "attempts_of l key = (case dget l key of None \<Rightarrow> [] | Some xs \<Rightarrow> xs)"

text \<open>The limiter represents the histories for windows of length \<open>w\<close>: it holds sorted queues
  that agree with the history inside the window.\<close>

definition represents :: "int \<Rightarrow> time \<Rightarrow> limiter \<Rightarrow> (str \<Rightarrow> time list) \<Rightarrow> bool" where
  "represents w now l H \<longleftrightarrow> distinct (dkeys l) \<and>
     (\<forall>k. sorted (attempts_of l k) \<and> in_window now w (attempts_of l k) = in_window now w (H k) \<and>
          (\<forall>t\<in>set (attempts_of l k). t \<le> now))"

lemma pop_expired_in_window:
  "sorted xs \<Longrightarrow> pop_expired (now - seconds w) xs = in_window now w xs"
  by (induction xs) (auto simp: pop_expired_def in_window_def intro!: filter_id_conv [THEN iffD2, symmetric])

lemma in_window_later: "now \<le> now' \<Longrightarrow> in_window now' w (in_window now w xs) = in_window now' w xs"
  by (auto simp: in_window_def intro: filter_cong)

lemma in_window_idem [simp]: "in_window now w (in_window now w xs) = in_window now w xs"
  by (rule in_window_later) simp

lemma in_window_same: "in_window now w xs = in_window now w ys \<Longrightarrow> now \<le> now' \<Longrightarrow> in_window now' w xs = in_window now' w ys"
  by (metis in_window_later)

lemma sorted_in_window: "sorted xs \<Longrightarrow> sorted (in_window now w xs)"
  by (simp add: in_window_def sorted_wrt_filter)

lemma represents_later: "represents w now l H \<Longrightarrow> now \<le> now' \<Longrightarrow> represents w now' l H"
  by (fastforce simp: represents_def intro: in_window_same)

lemma attempts_dset [simp]: "attempts_of (dset k xs l) k' = (if k' = k then xs else attempts_of l k')"
  by (simp add: attempts_of_def)

lemma attempts_dpop [simp]: "attempts_of (dpop k l) k' = (if k' = k then [] else attempts_of l k')"
  by (simp add: attempts_of_def)

lemma represents_clear: "represents w now l H \<Longrightarrow> represents w now (clear k l) (H(k := []))"
  by (auto simp: represents_def clear_def dpop_distinct)

lemma attempts_prune:
  "attempts_of (fst (prune now w k l)) k' =
    (if k' = k then pop_expired (now - seconds w) (attempts_of l k) else attempts_of l k')"
  by (auto simp: prune_def attempts_of_def Let_def pop_expired_def eq_commute [of "[]"] split: option.split)

lemma distinct_prune: "distinct (dkeys l) \<Longrightarrow> distinct (dkeys (fst (prune now w k l)))"
  by (simp add: prune_def Let_def dset_distinct dpop_distinct split: option.split)

lemma prune_snd:
  "snd (prune now w k l) = (let xs = pop_expired (now - seconds w) (attempts_of l k) in
     if xs = [] then None else Some xs)"
  by (auto simp: prune_def attempts_of_def Let_def pop_expired_def split: option.split)

lemma represents_attempts:
  assumes "represents w now l H"
  shows "pop_expired (now - seconds w) (attempts_of l k) = in_window now w (H k)"
  using assms by (simp add: represents_def pop_expired_in_window)

lemma represents_in_window:
  assumes rep: "represents w now l H"
  shows "sorted (in_window now w (H k))" "\<forall>t\<in>set (in_window now w (H k)). t \<le> now"
proof -
  have "in_window now w (H k) = in_window now w (attempts_of l k)" "sorted (attempts_of l k)"
      "\<forall>t\<in>set (attempts_of l k). t \<le> now"
    using rep by (simp_all add: represents_def)
  then show "sorted (in_window now w (H k))" "\<forall>t\<in>set (in_window now w (H k)). t \<le> now"
    by (simp_all add: sorted_in_window) (simp add: in_window_def)
qed

lemma prune_represents:
  assumes rep: "represents w now l H"
  shows "represents w now (fst (prune now w k l)) H"
    "snd (prune now w k l) = (if in_window now w (H k) = [] then None else Some (in_window now w (H k)))"
proof -
  show "represents w now (fst (prune now w k l)) H"
    using rep represents_in_window [OF rep, of k] unfolding represents_def attempts_prune represents_attempts [OF rep]
    by (simp add: distinct_prune)
  show "snd (prune now w k l) = (if in_window now w (H k) = [] then None else Some (in_window now w (H k)))"
    by (simp add: prune_snd represents_attempts [OF rep])
qed

text \<open>Dropping a key whose newest attempt is expired changes nothing inside the window.\<close>

lemma dget_prune_all:
  assumes "distinct (dkeys l)"
  shows "dget (prune_all_expired now w l) k = (case dget l k of
     None \<Rightarrow> None | Some dq \<Rightarrow> if dq = [] \<or> last dq < now - seconds w then None else Some dq)"
  using assms
proof (induction l)
  case (Cons e l)
  obtain k' dq where e: "e = (k', dq)" by (cases e)
  have "dget (prune_all_expired now w l) k' = None"
    using Cons.prems e by (simp add: prune_all_expired_def map_of_eq_None_iff image_iff)
  then show ?case using Cons by (auto simp: e prune_all_expired_def)
qed (simp add: prune_all_expired_def)

lemma in_window_old: "sorted xs \<Longrightarrow> last xs < now - seconds w \<Longrightarrow> in_window now w xs = []"
  by (cases xs rule: rev_cases) (auto simp: in_window_def sorted_append filter_empty_conv)

lemma prune_all_represents:
  assumes rep: "represents w now l H"
  shows "represents w now (prune_all_expired now w l) H"
proof -
  have d: "distinct (dkeys l)" using rep by (simp add: represents_def)
  have "attempts_of (prune_all_expired now w l) k = attempts_of l k \<or>
      attempts_of (prune_all_expired now w l) k = [] \<and> in_window now w (attempts_of l k) = []" for k
  proof -
    have "sorted (attempts_of l k)" using rep by (simp add: represents_def)
    then show ?thesis
      using in_window_old [of "attempts_of l k" now w]
      by (auto simp: attempts_of_def dget_prune_all [OF d] in_window_def split: option.split)
  qed
  moreover have "distinct (dkeys (prune_all_expired now w l))"
    using d by (simp add: prune_all_expired_def distinct_map_filter)
  moreover have "in_window now w [] = []" by (simp add: in_window_def)
  ultimately show ?thesis using rep unfolding represents_def by (metis empty_iff list.set(1) sorted_wrt.simps(1))
qed

lemma add_failure_represents:
  assumes rep: "represents w now l H"
  shows "represents w now (add_failure n now now k w l) (H(k := H k @ [now]))"
proof -
  define l1 where "l1 = (if has_key l k then l
    else dset k [] (if length l \<ge> n then prune_all_expired now w l else l))"
  have "represents w now (dset k [] l') H" if l': "represents w now l' H" "attempts_of l' k = []" for l'
  proof -
    have "in_window now w [] = in_window now w (H k)" using l' by (metis represents_def)
    then show ?thesis using l' by (simp add: represents_def dset_distinct)
  qed
  moreover have "attempts_of l k = []" "attempts_of (prune_all_expired now w l) k = []" if "\<not> has_key l k"
    using that rep by (simp_all add: has_key_def attempts_of_def dget_prune_all represents_def)
  ultimately have rep1: "represents w now l1 H"
    using rep prune_all_represents [OF rep] by (auto simp: l1_def)
  have "add_failure n now now k w l = dset k (in_window now w (H k) @ [now]) l1"
    using represents_attempts [OF rep1, of k] by (simp add: add_failure_def l1_def Let_def attempts_of_def)
  moreover have "sorted (in_window now w (H k) @ [now])"
    using represents_in_window [OF rep, of k] by (simp add: sorted_append)
  moreover have "in_window now w (in_window now w (H k) @ [now]) = in_window now w (H k @ [now])"
    by (simp add: in_window_def)
  ultimately show ?thesis
    using rep1 represents_in_window(2) [OF rep, of k] by (simp add: represents_def dset_distinct)
qed

section \<open>Runs\<close>

datatype limiter_op = Fail str | Forget str | Ask str int

fun run_limiter :: "nat \<Rightarrow> int \<Rightarrow> (time \<times> limiter_op) list \<Rightarrow> limiter \<Rightarrow> bool list" where
  "run_limiter n w [] l = []"
| "run_limiter n w ((now, Fail k) # ops) l = run_limiter n w ops (add_failure n now now k w l)"
| "run_limiter n w ((now, Forget k) # ops) l = run_limiter n w ops (clear k l)"
| "run_limiter n w ((now, Ask k limit) # ops) l =
     (let (l', (limited, retry)) = is_limited now now k limit w l in limited # run_limiter n w ops l')"

text \<open>The specification counts the failures of the key in the window.\<close>

fun count_failures :: "int \<Rightarrow> (time \<times> limiter_op) list \<Rightarrow> (str \<Rightarrow> time list) \<Rightarrow> bool list" where
  "count_failures w [] H = []"
| "count_failures w ((now, Fail k) # ops) H = count_failures w ops (H(k := H k @ [now]))"
| "count_failures w ((now, Forget k) # ops) H = count_failures w ops (H(k := []))"
| "count_failures w ((now, Ask k limit) # ops) H =
     (limit \<le> int (length (in_window now w (H k)))) # count_failures w ops H"

lemma is_limited_represents:
  assumes rep: "represents w now l H"
  shows "represents w now (fst (is_limited now now' k limit w l)) H"
    "0 < limit \<Longrightarrow> fst (snd (is_limited now now' k limit w l)) \<longleftrightarrow> limit \<le> int (length (in_window now w (H k)))"
proof -
  note p = prune_represents [OF rep, of k]
  obtain l' r where lr: "prune now w k l = (l', r)" by (cases "prune now w k l")
  show "represents w now (fst (is_limited now now' k limit w l)) H"
    using p(1) by (simp add: is_limited_def lr split: option.split)
  show "fst (snd (is_limited now now' k limit w l)) \<longleftrightarrow> limit \<le> int (length (in_window now w (H k)))" if "0 < limit"
    using p(2) that by (auto simp: is_limited_def lr)
qed

definition positive_limits :: "(time \<times> limiter_op) list \<Rightarrow> bool" where
  "positive_limits ops = list_all (\<lambda>(now, op). case op of Ask k limit \<Rightarrow> 0 < limit | _ \<Rightarrow> True) ops"

lemma run_limiter_counts:
  "represents w start l H \<Longrightarrow> sorted (start # map fst ops) \<Longrightarrow> positive_limits ops \<Longrightarrow>
    run_limiter n w ops l = count_failures w ops H"
proof (induction ops arbitrary: l H start)
  case (Cons e ops)
  obtain now op where e: "e = (now, op)" by (cases e)
  have rep: "represents w now l H" using Cons.prems(1,2) e by (auto intro: represents_later)
  have rest: "sorted (now # map fst ops)" "positive_limits ops" using Cons.prems e by (auto simp: positive_limits_def)
  show ?case
  proof (cases op)
    case (Fail k)
    then show ?thesis using Cons.IH [OF add_failure_represents [OF rep] rest] by (simp add: e fun_upd_def)
  next
    case (Forget k)
    then show ?thesis using Cons.IH [OF represents_clear [OF rep] rest] by (simp add: e fun_upd_def)
  next
    case (Ask k limit)
    then have "0 < limit" using Cons.prems(3) by (simp add: e positive_limits_def)
    note lim = is_limited_represents [OF rep, where now' = now and k = k and limit = limit]
    then show ?thesis using Cons.IH [OF lim(1) rest] lim(2) [OF \<open>0 < limit\<close>] Ask
      by (auto simp: e split: prod.split)
  qed
qed simp

lemma represents_empty: "represents w now [] (\<lambda>k. [])"
  by (simp add: represents_def attempts_of_def)

section \<open>Properties\<close>

text \<open>C31. Over any run with one window length and a clock that does not go back, the limiter answers
  exactly what counting each key's failures inside the window since it was last cleared answers,
  although it drops expired attempts and, when full, expired keys.\<close>

theorem limiter_counts_window:
  assumes "sorted (map fst ops)" and "positive_limits ops"
  shows "run_limiter n w ops [] = count_failures w ops (\<lambda>k. [])"
proof (cases ops)
  case (Cons e rest)
  then show ?thesis
    using run_limiter_counts [OF represents_empty [of w "fst e"], of ops n] assms by simp
qed simp

theorem limiter_counts_window_witness:
  "run_limiter 1 60 [(0, Fail ''a''), (1000000, Fail ''b''), (2000000, Fail ''a''),
     (3000000, Ask ''a'' 2), (61000000, Ask ''a'' 2)] [] = [True, False]"
proof -
  let ?ops = "[(0, Fail ''a''), (1000000, Fail ''b''), (2000000, Fail ''a''),
     (3000000, Ask ''a'' 2), (61000000, Ask ''a'' 2)]"
  have "run_limiter 1 60 ?ops [] = count_failures 60 ?ops (\<lambda>k. [])"
    by (rule limiter_counts_window) (simp_all add: positive_limits_def)
  also have "\<dots> = [True, False]" by (simp add: in_window_def)
  finally show ?thesis .
qed

text \<open>C32. The answer to a limited client waits long enough and not too long: \<open>Retry-After\<close> lies
  between one second and the window plus one, and when that time has passed the oldest counted failure
  has left the window.\<close>

theorem retry_after_bounds:
  assumes "represents w now l H" and "now \<le> now'" and "0 \<le> w"
    and "is_limited now now' k limit w l = (l', (True, retry))"
  shows "1 \<le> retry \<and> retry \<le> w + 1 \<and> hd (in_window now w (H k)) < now' + seconds retry - seconds w"
proof -
  let ?a = "hd (in_window now w (H k))"
  have w: "in_window now w (H k) \<noteq> []" and r: "retry = max (trunc_seconds (?a + seconds w - now') + 1) 1"
    using assms(4) prune_represents(2) [OF assms(1), of k]
    by (auto simp: is_limited_def split: prod.splits option.splits if_splits)
  have "?a \<le> now" using w represents_in_window(2) [OF assms(1), of k] by simp
  then have "?a + seconds w - now' \<le> seconds w" using assms(2) by simp
  then have "trunc_seconds (?a + seconds w - now') \<le> w"
    using assms(3) by (auto simp: trunc_seconds_def)
  moreover have "?a + seconds w - now' < seconds (max (trunc_seconds (?a + seconds w - now') + 1) 1)"
    by (auto simp: trunc_seconds_def max_def)
  ultimately show ?thesis using assms(3) r by auto
qed

theorem retry_after_bounds_witness:
  "is_limited 10000000 10500000 ''a'' 1 60 [(''a'', [1000000])] = ([(''a'', [1000000])], (True, 51)) \<and>
   (1000000 :: int) < 10500000 + seconds 51 - seconds 60"
proof -
  have run: "is_limited 10000000 10500000 ''a'' 1 60 [(''a'', [1000000])] = ([(''a'', [1000000])], (True, 51))"
    by (simp add: is_limited_def prune_def pop_expired_def trunc_seconds_def Let_def)
  have rep: "represents 60 10000000 [(''a'', [1000000])] (\<lambda>k. if k = ''a'' then [1000000] else [])"
    by (simp add: represents_def attempts_of_def)
  from retry_after_bounds [OF rep _ _ run] run show ?thesis by (simp add: in_window_def)
qed

text \<open>C33. A full limiter forgets failures that still count. Keys with different windows share one
  limiter, and a new key drops every key whose newest failure is older than the window of the new one:
  a client over its limit in a longer window is let through again.\<close>

theorem full_limiter_forgets_long_windows:
  assumes "\<not> has_key l key" and "n \<le> length l" and "distinct (dkeys l)"
    and "dget l k = Some dq" and "dq \<noteq> []" and "last dq < now - seconds short"
    and "now - seconds long \<le> hd dq" and "0 < limit" and "limit \<le> int (length dq)"
  shows "fst (snd (is_limited now now k limit long l)) \<and>
    \<not> fst (snd (is_limited now now k limit long (add_failure n now now key short l)))"
proof -
  have "pop_expired (now - seconds long) dq = dq"
    using assms(5,7) by (cases dq) (simp_all add: pop_expired_def)
  then have before: "fst (snd (is_limited now now k limit long l))"
    using assms(4,5,8,9) by (simp add: is_limited_def prune_def)
  have "k \<noteq> key" using assms(1,4) by (auto simp: has_key_def)
  then have "dget (add_failure n now now key short l) k = None"
    using assms by (simp add: add_failure_def Let_def dget_prune_all)
  then have "\<not> fst (snd (is_limited now now k limit long (add_failure n now now key short l)))"
    by (simp add: is_limited_def prune_def)
  with before show ?thesis by blast
qed

theorem full_limiter_forgets_long_windows_witness:
  "fst (snd (is_limited 400000000 400000000 ''subscribe'' 1 3600 [(''subscribe'', [0])])) \<and>
   \<not> fst (snd (is_limited 400000000 400000000 ''subscribe'' 1 3600
     (add_failure 1 400000000 400000000 ''login'' 300 [(''subscribe'', [0])])))"
  by (rule full_limiter_forgets_long_windows [where dq = "[0]"]) (simp_all add: has_key_def)

end
