(* ===== verification/AuthTokens.thy ===== *)
theory AuthTokens
  imports PyData RateLimit
begin

text \<open>
  \<^verbatim>\<open>services/auth_service.py\<close>, \<^verbatim>\<open>services/csrf_service.py\<close> and the admin dependencies of
  \<^verbatim>\<open>api/deps.py\<close>: credentials, access tokens and the rotation of refresh tokens. The
  cryptographic libraries are the fields of \<open>auth_lib\<close>; the value \<open>secrets.token_urlsafe\<close> gives and
  the time of each reading of the clock are arguments.
\<close>

section \<open>Libraries and tables\<close>

datatype jwt_result = JwtClaims meta | JwtExpired | JwtInvalidKey | JwtInvalid

text \<open>\<open>bcrypt_check\<close> and \<open>bcrypt_hash\<close> give \<open>None\<close> for a \<open>ValueError\<close>. A token is signed over its
  claims and its expiry.\<close>

record auth_lib =
  bcrypt_check :: "str \<Rightarrow> str \<Rightarrow> bool option"
  bcrypt_hash :: "str \<Rightarrow> str option"
  jwt_encode :: "meta \<Rightarrow> time \<Rightarrow> str \<Rightarrow> str"
  jwt_decode :: "time \<Rightarrow> str \<Rightarrow> str \<Rightarrow> jwt_result"
  access_key :: "str \<Rightarrow> str"
  csrf_digest :: "str \<Rightarrow> str \<Rightarrow> str"
  token_digest :: "str \<Rightarrow> str"
  format_iso :: "time \<Rightarrow> str"
  parse_iso :: "str \<Rightarrow> time option"
  lower :: "str \<Rightarrow> str"
  show_id :: "nat \<Rightarrow> str"
  read_id :: "str \<Rightarrow> nat option"

record auth_settings =
  secret_key :: str
  access_minutes :: int
  refresh_days :: int
  admin_username :: str
  admin_password :: str
  admin_display_name :: str
  login_max_failures :: int
  refresh_max_failures :: int
  limit_window :: int
  cors_origins :: "str list"
  enforce_login_origin :: bool
  trusted_proxies :: "str list"
  disable_password_change :: bool

record admin_user =
  adm_id :: nat
  adm_username :: str
  adm_email :: str
  adm_password_hash :: str
  adm_display_name :: "str option"
  adm_updated_at :: str

record refresh_row =
  tok_id :: nat
  tok_user :: nat
  tok_hash :: str
  tok_expires :: str
  tok_created :: str

record social_account =
  acc_id :: nat
  acc_user :: nat
  acc_key :: "str \<times> str"

record auth_db =
  adb_admins :: "admin_user list"
  adb_tokens :: "refresh_row list"
  adb_accounts :: "social_account list"
  adb_cross_posts :: "(nat \<times> nat option) list"

text \<open>SQLite gives a new row the largest id plus one.\<close>

definition next_id :: "nat list \<Rightarrow> nat" where
  "next_id ids = Suc (fold max ids 0)"

definition find_admin :: "auth_db \<Rightarrow> (admin_user \<Rightarrow> bool) \<Rightarrow> admin_user option" where
  "find_admin db P = List.find P (adb_admins db)"

lemma find_snoc:
  "List.find P (xs @ [x]) = (case List.find P xs of None \<Rightarrow> if P x then Some x else None | Some y \<Rightarrow> Some y)"
  by (induction xs) auto

section \<open>Credentials and access tokens\<close>

definition verify_password :: "auth_lib \<Rightarrow> str \<Rightarrow> str \<Rightarrow> bool" where
  "verify_password L plain_password hashed = (case bcrypt_check L plain_password hashed of None \<Rightarrow> False | Some b \<Rightarrow> b)"

definition create_access_token :: "auth_lib \<Rightarrow> time \<Rightarrow> meta \<Rightarrow> str \<Rightarrow> int \<Rightarrow> str" where
  "create_access_token L now data secret expires_minutes =
     jwt_encode L (dset ''type'' (PStr ''access'') data) (now + seconds (60 * expires_minutes)) (access_key L secret)"

text \<open>\<open>Inl ()\<close> is the \<open>InternalServerError\<close> of an invalid signing key.\<close>

definition decode_access_token :: "auth_lib \<Rightarrow> time \<Rightarrow> str \<Rightarrow> str \<Rightarrow> unit + meta option" where
  "decode_access_token L now token secret = (case jwt_decode L now token (access_key L secret) of
     JwtClaims payload \<Rightarrow> Inr (if \<not> py_eq (mget payload ''type'') (PStr ''access'') then None else Some payload)
   | JwtExpired \<Rightarrow> Inr None
   | JwtInvalidKey \<Rightarrow> Inl ()
   | JwtInvalid \<Rightarrow> Inr None)"

definition create_csrf_token :: "auth_lib \<Rightarrow> str \<Rightarrow> str \<Rightarrow> str" where
  "create_csrf_token L access_token secret = csrf_digest L secret access_token"

definition validate_csrf_token :: "auth_lib \<Rightarrow> str \<Rightarrow> str \<Rightarrow> str \<Rightarrow> bool" where
  "validate_csrf_token L access_token csrf_token secret \<longleftrightarrow>
     create_csrf_token L access_token secret = csrf_token"

definition authenticate_admin :: "auth_lib \<Rightarrow> auth_db \<Rightarrow> str \<Rightarrow> str \<Rightarrow> admin_user option" where
  "authenticate_admin L db username password = (case find_admin db (\<lambda>u. adm_username u = username) of
     None \<Rightarrow> None
   | Some user \<Rightarrow> if \<not> verify_password L password (adm_password_hash user) then None else Some user)"

text \<open>The claims of a user, and \<open>get_current_admin\<close>: the bearer credentials come before the cookie;
  the subject is a number or a string of digits.\<close>

definition access_claims :: "auth_lib \<Rightarrow> admin_user \<Rightarrow> meta" where
  "access_claims L user = [(''sub'', PStr (show_id L (adm_id user))), (''username'', PStr (adm_username user))]"

definition subject_id :: "auth_lib \<Rightarrow> pyval \<Rightarrow> nat option" where
  "subject_id L v = (case v of
     PStr s \<Rightarrow> read_id L s
   | PInt i \<Rightarrow> if 0 \<le> i then Some (nat i) else None
   | PBool b \<Rightarrow> Some (of_bool b)
   | _ \<Rightarrow> None)"

definition get_current_admin ::
  "auth_lib \<Rightarrow> auth_settings \<Rightarrow> time \<Rightarrow> str option \<Rightarrow> str option \<Rightarrow> auth_db \<Rightarrow> admin_user option" where
  "get_current_admin L S now bearer cookie db =
     (case (case bearer of Some t \<Rightarrow> Some t | None \<Rightarrow> cookie) of
        None \<Rightarrow> None
      | Some token \<Rightarrow>
     (case decode_access_token L now token (secret_key S) of
        Inl _ \<Rightarrow> None
      | Inr None \<Rightarrow> None
      | Inr (Some payload) \<Rightarrow>
     (case subject_id L (mget payload ''sub'') of
        None \<Rightarrow> None
      | Some user_id \<Rightarrow> find_admin db (\<lambda>u. adm_id u = user_id))))"

definition require_admin :: "admin_user option \<Rightarrow> http_error + admin_user" where
  "require_admin user = (case user of
     None \<Rightarrow> Inl (HTTPException 401 ''Not authenticated'') | Some u \<Rightarrow> Inr u)"

section \<open>Refresh tokens\<close>

text \<open>\<open>create_tokens\<close> with the fresh value for the refresh token; the hash column is unique, so a
  value that is in use raises.\<close>

definition token_row :: "auth_lib \<Rightarrow> auth_settings \<Rightarrow> time \<Rightarrow> str \<Rightarrow> nat \<Rightarrow> auth_db \<Rightarrow> refresh_row" where
  "token_row L S now fresh user_id db = \<lparr>tok_id = next_id (map tok_id (adb_tokens db)), tok_user = user_id,
     tok_hash = token_digest L fresh, tok_expires = format_iso L (now + seconds (86400 * refresh_days S)),
     tok_created = format_iso L now\<rparr>"

definition create_tokens ::
  "auth_lib \<Rightarrow> auth_settings \<Rightarrow> time \<Rightarrow> str \<Rightarrow> admin_user \<Rightarrow> auth_db \<Rightarrow> (auth_db \<times> str \<times> str) option" where
  "create_tokens L S now fresh user db =
     (if token_digest L fresh \<in> tok_hash ` set (adb_tokens db) then None
      else Some (db\<lparr>adb_tokens := adb_tokens db @ [token_row L S now fresh (adm_id user) db]\<rparr>,
        create_access_token L now (access_claims L user) (secret_key S) (access_minutes S), fresh))"

definition delete_token_id :: "nat \<Rightarrow> auth_db \<Rightarrow> auth_db" where
  "delete_token_id i db = db\<lparr>adb_tokens := filter (\<lambda>t. tok_id t \<noteq> i) (adb_tokens db)\<rparr>"

text \<open>The first part of \<open>refresh_tokens\<close>: the stored row, when it is valid; an expired row or one whose
  expiry does not parse is deleted.\<close>

definition find_refresh :: "auth_lib \<Rightarrow> time \<Rightarrow> str \<Rightarrow> auth_db \<Rightarrow> auth_db \<times> refresh_row option" where
  "find_refresh L now presented db = (case List.find (\<lambda>t. tok_hash t = token_digest L presented) (adb_tokens db) of
     None \<Rightarrow> (db, None)
   | Some stored \<Rightarrow> (case parse_iso L (tok_expires stored) of
       None \<Rightarrow> (delete_token_id (tok_id stored) db, None)
     | Some expires \<Rightarrow>
         if expires < now then (delete_token_id (tok_id stored) db, None) else (db, Some stored)))"

text \<open>The second part: delete the row, count the deleted rows, and issue new tokens. Between the two
  parts other requests can run.\<close>

definition consume_refresh ::
  "auth_lib \<Rightarrow> auth_settings \<Rightarrow> time \<Rightarrow> str \<Rightarrow> refresh_row \<Rightarrow> auth_db \<Rightarrow> (auth_db \<times> (str \<times> str) option) option" where
  "consume_refresh L S now fresh stored db =
     (let hit = (\<lambda>t. tok_id t = tok_id stored \<and> tok_hash t = tok_hash stored);
          db1 = db\<lparr>adb_tokens := filter (\<lambda>t. \<not> hit t) (adb_tokens db)\<rparr> in
      if length (filter hit (adb_tokens db)) \<noteq> 1 then Some (db1, None)
      else (case find_admin db (\<lambda>u. adm_id u = tok_user stored) of
          None \<Rightarrow> Some (db1, None)
        | Some user \<Rightarrow> map_option (\<lambda>(db2, tokens). (db2, Some tokens)) (create_tokens L S now fresh user db1)))"

definition refresh_tokens ::
  "auth_lib \<Rightarrow> auth_settings \<Rightarrow> time \<Rightarrow> str \<Rightarrow> str \<Rightarrow> auth_db \<Rightarrow> (auth_db \<times> (str \<times> str) option) option" where
  "refresh_tokens L S now fresh presented db = (case find_refresh L now presented db of
     (db1, None) \<Rightarrow> Some (db1, None)
   | (db1, Some stored) \<Rightarrow> consume_refresh L S now fresh stored db1)"

definition revoke_refresh_token :: "auth_lib \<Rightarrow> str \<Rightarrow> auth_db \<Rightarrow> auth_db \<times> bool" where
  "revoke_refresh_token L presented db = (case List.find (\<lambda>t. tok_hash t = token_digest L presented) (adb_tokens db) of
     None \<Rightarrow> (db, False)
   | Some t \<Rightarrow> (delete_token_id (tok_id t) db, True))"

definition revoke_admin_credentials :: "nat \<Rightarrow> auth_db \<Rightarrow> auth_db" where
  "revoke_admin_credentials user_id db = db\<lparr>adb_tokens := filter (\<lambda>t. tok_user t \<noteq> user_id) (adb_tokens db)\<rparr>"

section \<open>The CSRF check\<close>

text \<open>The middleware of \<^verbatim>\<open>main.py\<close>: the method, the path, the header \<^verbatim>\<open>Authorization\<close> in lower
  case (empty when missing), the access cookie and the header \<^verbatim>\<open>X-CSRF-Token\<close>.\<close>

definition csrf_protection ::
  "auth_lib \<Rightarrow> auth_settings \<Rightarrow> str \<Rightarrow> str \<Rightarrow> str \<Rightarrow> str option \<Rightarrow> str option \<Rightarrow> bool" where
  "csrf_protection L S request_method url_path auth_header access_cookie header_token =
     (if request_method \<in> {''POST'', ''PUT'', ''PATCH'', ''DELETE''} \<and> startswith url_path ''/api/'' then
        (let has_bearer = startswith auth_header ''bearer '' in
         case access_cookie of
           None \<Rightarrow> True
         | Some cookie \<Rightarrow>
             if cookie \<noteq> [] \<and> \<not> has_bearer \<and> url_path \<notin> {''/api/auth/login'', ''/api/auth/token-login''}
             then (case header_token of None \<Rightarrow> False
               | Some t \<Rightarrow> validate_csrf_token L cookie t (secret_key S))
             else True)
      else True)"

section \<open>Laws of the libraries\<close>

text \<open>What the code relies on: a signed token decodes to its claims before its expiry under the key
  it was signed with, and is expired afterwards.\<close>

definition signs :: "auth_lib \<Rightarrow> meta \<Rightarrow> time \<Rightarrow> str \<Rightarrow> bool" where
  "signs L m e k \<longleftrightarrow> (\<forall>now. jwt_decode L now (jwt_encode L m e k) k =
     (if now < e then JwtClaims m else JwtExpired))"

section \<open>Concurrent refreshes\<close>

text \<open>Requests interleave between the two parts of a refresh. \<open>rw_found\<close> are the requests that have
  found their row and not consumed it yet, each with the value it presented; \<open>rw_granted\<close> lists the hashes that were exchanged for new
  tokens, \<open>rw_issued\<close> all hashes ever stored.\<close>

record refresh_world =
  rw_db :: auth_db
  rw_found :: "refresh_row list"
  rw_granted :: "str list"
  rw_issued :: "str set"

text \<open>A fresh value is one whose hash was never stored before.\<close>

inductive refresh_step :: "auth_lib \<Rightarrow> auth_settings \<Rightarrow> refresh_world \<Rightarrow> refresh_world \<Rightarrow> bool"
  for L S where
  login: "create_tokens L S now fresh user (rw_db w) = Some (db, tokens) \<Longrightarrow>
    token_digest L fresh \<notin> rw_issued w \<Longrightarrow>
    refresh_step L S w (w\<lparr>rw_db := db, rw_issued := insert (token_digest L fresh) (rw_issued w)\<rparr>)"
| missing: "find_refresh L now v (rw_db w) = (db, None) \<Longrightarrow> refresh_step L S w (w\<lparr>rw_db := db\<rparr>)"
| found: "find_refresh L now v (rw_db w) = (db, Some row) \<Longrightarrow>
    refresh_step L S w (w\<lparr>rw_db := db, rw_found := row # rw_found w\<rparr>)"
| consumed: "row \<in> set (rw_found w) \<Longrightarrow> token_digest L fresh \<notin> rw_issued w \<Longrightarrow>
    consume_refresh L S now fresh row (rw_db w) = Some (db, Some tokens) \<Longrightarrow>
    refresh_step L S w (w\<lparr>rw_db := db, rw_found := remove1 row (rw_found w),
      rw_granted := tok_hash row # rw_granted w, rw_issued := insert (token_digest L fresh) (rw_issued w)\<rparr>)"
| lost: "row \<in> set (rw_found w) \<Longrightarrow> consume_refresh L S now fresh row (rw_db w) = Some (db, None) \<Longrightarrow>
    refresh_step L S w (w\<lparr>rw_db := db, rw_found := remove1 row (rw_found w)\<rparr>)"
| revoked: "refresh_step L S w (w\<lparr>rw_db := fst (revoke_refresh_token L v (rw_db w))\<rparr>)"
| reset: "refresh_step L S w (w\<lparr>rw_db := revoke_admin_credentials i (rw_db w)\<rparr>)"

definition start_world :: "refresh_world \<Rightarrow> bool" where
  "start_world w \<longleftrightarrow> rw_found w = [] \<and> rw_granted w = [] \<and> rw_issued w = tok_hash ` set (adb_tokens (rw_db w))"

text \<open>No exchanged hash is stored any more, and none was exchanged twice.\<close>

definition single_use :: "refresh_world \<Rightarrow> bool" where
  "single_use w \<longleftrightarrow> distinct (rw_granted w) \<and> set (rw_granted w) \<subseteq> rw_issued w \<and>
     tok_hash ` set (adb_tokens (rw_db w)) \<subseteq> rw_issued w - set (rw_granted w) "

abbreviation hashes :: "auth_db \<Rightarrow> str set" where
  "hashes db \<equiv> tok_hash ` set (adb_tokens db)"

lemma hashes_create:
  "create_tokens L S now fresh user db = Some (db', t) \<Longrightarrow> hashes db' = insert (token_digest L fresh) (hashes db)"
  by (auto simp: create_tokens_def token_row_def split: if_splits)

lemma hashes_find: "find_refresh L now v db = (db', r) \<Longrightarrow> hashes db' \<subseteq> hashes db"
  by (auto simp: find_refresh_def delete_token_id_def split: option.splits if_splits)

lemma hashes_revoke:
  "hashes (fst (revoke_refresh_token L v db)) \<subseteq> hashes db" "hashes (revoke_admin_credentials i db) \<subseteq> hashes db"
  by (auto simp: revoke_refresh_token_def revoke_admin_credentials_def delete_token_id_def split: option.splits)

text \<open>Hashes and identifiers are unique in the table.\<close>

definition tokens_ok :: "auth_db \<Rightarrow> bool" where
  "tokens_ok db \<longleftrightarrow> distinct (map tok_hash (adb_tokens db))"

lemma hashes_lost: "consume_refresh L S now fresh row db = Some (db', None) \<Longrightarrow> hashes db' \<subseteq> hashes db"
  by (auto simp: consume_refresh_def Let_def split: if_splits option.splits)

lemma filter_nonempty: "length (filter P xs) = 1 \<Longrightarrow> \<exists>x\<in>set xs. P x"
  by (cases "filter P xs") (auto simp: filter_eq_Cons_iff)

lemma hashes_consume:
  assumes "consume_refresh L S now fresh row db = Some (db', Some t)" "tokens_ok db"
  shows "tok_hash row \<in> hashes db" "hashes db' \<subseteq> insert (token_digest L fresh) (hashes db - {tok_hash row})"
proof -
  let ?hit = "\<lambda>t. tok_id t = tok_id row \<and> tok_hash t = tok_hash row"
  let ?db1 = "db\<lparr>adb_tokens := filter (\<lambda>t. \<not> ?hit t) (adb_tokens db)\<rparr>"
  have one: "length (filter ?hit (adb_tokens db)) = 1"
    using assms(1) by (auto simp: consume_refresh_def Let_def split: if_splits)
  then obtain x where x: "x \<in> set (adb_tokens db)" "?hit x" using filter_nonempty by blast
  then show "tok_hash row \<in> hashes db" by (metis image_eqI)
  obtain user where "create_tokens L S now fresh user ?db1 = Some (db', t)"
    using assms(1) one by (auto simp: consume_refresh_def Let_def split: option.splits)
  then have new: "hashes db' = insert (token_digest L fresh) (hashes ?db1)" by (rule hashes_create)
  have "y = x" if "y \<in> set (adb_tokens db)" "tok_hash y = tok_hash row" for y
    using assms(2) x that inj_onD [of tok_hash "set (adb_tokens db)" y x] by (simp add: tokens_ok_def distinct_map)
  then have "hashes ?db1 \<subseteq> hashes db - {tok_hash row}" using x(2) by force
  with new show "hashes db' \<subseteq> insert (token_digest L fresh) (hashes db - {tok_hash row})" by auto
qed

lemma tokens_ok_filter: "tokens_ok db \<Longrightarrow> tokens_ok (db\<lparr>adb_tokens := filter P (adb_tokens db)\<rparr>)"
  by (simp add: tokens_ok_def distinct_map_filter)

lemma tokens_ok_create:
  "create_tokens L S now fresh user db = Some (db', t) \<Longrightarrow> tokens_ok db \<Longrightarrow> tokens_ok db'"
  by (auto simp: create_tokens_def tokens_ok_def token_row_def split: if_splits)

lemma tokens_ok_find: "find_refresh L now v db = (db', r) \<Longrightarrow> tokens_ok db \<Longrightarrow> tokens_ok db'"
  by (auto simp: find_refresh_def delete_token_id_def tokens_ok_filter split: option.splits if_splits)

lemma tokens_ok_consume: "consume_refresh L S now fresh row db = Some (db', r) \<Longrightarrow> tokens_ok db \<Longrightarrow> tokens_ok db'"
  by (auto simp: consume_refresh_def Let_def tokens_ok_filter split: if_splits option.splits
    intro: tokens_ok_create)

lemma tokens_ok_revoke:
  "tokens_ok db \<Longrightarrow> tokens_ok (fst (revoke_refresh_token L v db))"
  "tokens_ok db \<Longrightarrow> tokens_ok (revoke_admin_credentials i db)"
  by (auto simp: revoke_refresh_token_def revoke_admin_credentials_def delete_token_id_def tokens_ok_filter
    split: option.split)

lemma exchanged_once:
  assumes "H' \<subseteq> insert f (H - {h})" "H \<subseteq> I - G" "G \<subseteq> I" "f \<notin> I" "h \<in> H"
  shows "H' \<subseteq> insert f I - insert h G" "h \<in> I" "h \<notin> G"
  using assms by auto

lemma refresh_step_single_use:
  "refresh_step L S w w' \<Longrightarrow> single_use w \<and> tokens_ok (rw_db w) \<Longrightarrow> single_use w' \<and> tokens_ok (rw_db w')"
proof (induction rule: refresh_step.induct)
  case (login now fresh user w db tokens)
  then show ?case
    using hashes_create [OF login(1)] tokens_ok_create [OF login(1)] by (auto simp: single_use_def)
next
  case (missing now v w db)
  then show ?case using hashes_find [OF missing(1)] tokens_ok_find [OF missing(1)] by (auto simp: single_use_def)
next
  case (found now v w db row)
  then show ?case using hashes_find [OF found(1)] tokens_ok_find [OF found(1)] by (auto simp: single_use_def)
next
  case (consumed row w fresh now db tokens)
  have ok: "tokens_ok (rw_db w)" using consumed.prems by simp
  note use = hashes_consume [OF consumed(3) ok]
  have old: "set (rw_granted w) \<subseteq> rw_issued w" "hashes (rw_db w) \<subseteq> rw_issued w - set (rw_granted w)"
    "distinct (rw_granted w)" using consumed.prems by (simp_all add: single_use_def)
  show ?case
    using exchanged_once [OF use(2) old(2,1) consumed(2) use(1)] old tokens_ok_consume [OF consumed(3) ok]
    by (simp add: single_use_def subset_insertI2)
next
  case (lost row w now fresh db)
  then show ?case using hashes_lost [OF lost(2)] tokens_ok_consume [OF lost(2)] by (auto simp: single_use_def)
next
  case (revoked w v)
  then show ?case using hashes_revoke(1) [of L v "rw_db w"] by (auto simp: single_use_def tokens_ok_revoke)
next
  case (reset w i)
  then show ?case using hashes_revoke(2) [of i "rw_db w"] by (auto simp: single_use_def tokens_ok_revoke)
qed

interpretation refresh_runs: transitions "\<lambda>w. start_world w \<and> tokens_ok (rw_db w)" "refresh_step L S"
  "\<lambda>w. single_use w \<and> tokens_ok (rw_db w)" for L S
proof unfold_locales
  show "start_world w \<and> tokens_ok (rw_db w) \<Longrightarrow> single_use w \<and> tokens_ok (rw_db w)" for w
    by (auto simp: start_world_def single_use_def)
qed (rule refresh_step_single_use)

section \<open>Properties\<close>

text \<open>C34. However refresh requests, logins, logouts and password changes interleave, no refresh token
  is ever exchanged twice, and an exchanged one is gone from the table.\<close>

theorem refresh_token_single_use:
  assumes "start_world w" and "tokens_ok (rw_db w)" and "(refresh_step L S)\<^sup>*\<^sup>* w w'"
  shows "distinct (rw_granted w') \<and> set (rw_granted w') \<inter> hashes (rw_db w') = {}"
  using refresh_runs.reached [OF conjI [OF assms(1,2)] assms(3)] by (auto simp: single_use_def)

definition plain_lib :: auth_lib where
  "plain_lib = \<lparr>bcrypt_check = (\<lambda>p h. Some (p = h)), bcrypt_hash = (\<lambda>p. Some p),
     jwt_encode = (\<lambda>m e k. ''jwt''), jwt_decode = (\<lambda>now t k. JwtInvalid), access_key = (\<lambda>s. s),
     csrf_digest = (\<lambda>s t. s @ t), token_digest = (\<lambda>t. t), format_iso = (\<lambda>t. ''2026''),
     parse_iso = (\<lambda>s. Some 100), lower = (\<lambda>s. s), show_id = (\<lambda>i. replicate i (CHR ''1'')),
     read_id = (\<lambda>s. Some (length s))\<rparr>"

definition demo_settings :: auth_settings where
  "demo_settings = \<lparr>secret_key = ''k'', access_minutes = 15, refresh_days = 7, admin_username = ''admin'',
     admin_password = ''pw'', admin_display_name = [], login_max_failures = 5, refresh_max_failures = 10,
     limit_window = 300, cors_origins = [], enforce_login_origin = True, trusted_proxies = [],
     disable_password_change = False\<rparr>"

definition demo_admin :: admin_user where
  "demo_admin = \<lparr>adm_id = 1, adm_username = ''admin'', adm_email = ''admin@localhost'',
     adm_password_hash = ''pw'', adm_display_name = None, adm_updated_at = []\<rparr>"

definition demo_auth :: auth_db where
  "demo_auth = \<lparr>adb_admins = [demo_admin], adb_tokens = [\<lparr>tok_id = 1, tok_user = 1, tok_hash = ''old'',
     tok_expires = ''2026'', tok_created = ''2026''\<rparr>], adb_accounts = [], adb_cross_posts = []\<rparr>"

theorem refresh_token_single_use_witness:
  "\<exists>w. (refresh_step plain_lib demo_settings)\<^sup>*\<^sup>*
       \<lparr>rw_db = demo_auth, rw_found = [], rw_granted = [], rw_issued = {''old''}\<rparr> w \<and>
     rw_granted w = [''old''] \<and> ''old'' \<notin> hashes (rw_db w)"
proof -
  define w0 where "w0 = \<lparr>rw_db = demo_auth, rw_found = [], rw_granted = [], rw_issued = {''old''}\<rparr>"
  define row where "row = hd (adb_tokens demo_auth)"
  have row: "tok_hash row = ''old''" by (simp add: row_def demo_auth_def)
  have find: "find_refresh plain_lib 0 ''old'' demo_auth = (demo_auth, Some row)"
    by (simp add: find_refresh_def row_def demo_auth_def plain_lib_def)
  obtain db t where c: "consume_refresh plain_lib demo_settings 0 ''new'' row demo_auth = Some (db, Some t)"
    by (simp add: consume_refresh_def create_tokens_def find_admin_def row_def demo_auth_def demo_admin_def
      plain_lib_def Let_def)
  define w1 where "w1 = w0\<lparr>rw_db := demo_auth, rw_found := row # rw_found w0\<rparr>"
  define w2 where "w2 = w1\<lparr>rw_db := db, rw_found := remove1 row (rw_found w1),
      rw_granted := tok_hash row # rw_granted w1,
      rw_issued := insert (token_digest plain_lib ''new'') (rw_issued w1)\<rparr>"
  have w1: "rw_db w0 = demo_auth" "rw_db w1 = demo_auth" "row \<in> set (rw_found w1)" "rw_issued w1 = {''old''}"
    by (simp_all add: w0_def w1_def)
  have "refresh_step plain_lib demo_settings w0 w1"
    unfolding w1_def by (rule refresh_step.found [where v = "''old''" and now = 0]) (simp add: w1 find)
  moreover have "refresh_step plain_lib demo_settings w1 w2"
    unfolding w2_def
  proof (rule refresh_step.consumed)
    show "consume_refresh plain_lib demo_settings 0 ''new'' row (rw_db w1) = Some (db, Some t)" using c by (simp add: w1)
    show "token_digest plain_lib ''new'' \<notin> rw_issued w1" by (simp add: w1 plain_lib_def)
  qed (rule w1(3))
  ultimately have run: "(refresh_step plain_lib demo_settings)\<^sup>*\<^sup>* w0 w2" by simp
  have "start_world w0" "tokens_ok (rw_db w0)" by (simp_all add: w0_def start_world_def tokens_ok_def demo_auth_def)
  note gone = refresh_token_single_use [OF this run]
  have "rw_granted w2 = [''old'']" by (simp add: w2_def w1_def w0_def row)
  then show ?thesis using run gone unfolding w0_def by auto
qed







end
