(* ===== verification/AuthApi.thy ===== *)
theory AuthApi
  imports AuthTokens FrontMatter
begin

text \<open>
  The endpoints of \<^verbatim>\<open>api/auth.py\<close>, the password change of \<^verbatim>\<open>api/admin.py\<close>, and the start-up of
  \<^verbatim>\<open>services/auth_service.py\<close> that brings the admin account in line with the configuration.
  \<open>t1\<close> and \<open>t2\<close> are the times of the limiter's check and of its record; the number of keys the limiter
  holds is its argument \<open>n\<close>.
\<close>

datatype auth_error = AuthHttp http_error | AuthRaises

abbreviation "too_many detail \<equiv> AuthHttp (HTTPException 429 detail)"
abbreviation "unauthorized detail \<equiv> AuthHttp (HTTPException 401 detail)"
abbreviation "forbidden detail \<equiv> AuthHttp (HTTPException 403 detail)"

section \<open>Origins\<close>

text \<open>\<open>urlparse\<close> gives scheme and network location; \<open>None\<close> is its \<open>ValueError\<close>.\<close>

definition origin_from_referer :: "(str \<Rightarrow> (str \<times> str) option) \<Rightarrow> str \<Rightarrow> str option option" where
  "origin_from_referer url_parse referer = map_option (\<lambda>(scheme, netloc).
     if scheme \<notin> {''http'', ''https''} \<or> netloc = [] then None else Some (scheme @ ''://'' @ netloc))
     (url_parse referer)"

definition enforce_origin ::
  "(str \<Rightarrow> (str \<times> str) option) \<Rightarrow> auth_settings \<Rightarrow> str \<Rightarrow> str option \<Rightarrow> str option \<Rightarrow> auth_error option" where
  "enforce_origin url_parse S base_url origin referer =
     (case (case origin of
         Some o' \<Rightarrow> Some (Some o')
       | None \<Rightarrow> (case referer of
           None \<Rightarrow> Some None
         | Some r \<Rightarrow> if r \<noteq> [] then origin_from_referer url_parse r else Some None)) of
        None \<Rightarrow> Some AuthRaises
      | Some None \<Rightarrow> None
      | Some (Some o') \<Rightarrow>
          if o' \<notin> insert (rstrip_char (CHR ''/'') base_url) (set (cors_origins S))
          then Some (forbidden ''Untrusted request origin'') else None)"

section \<open>Login\<close>

definition login_key :: "auth_lib \<Rightarrow> str \<Rightarrow> str \<Rightarrow> str" where
  "login_key L client_ip username = ''login:'' @ client_ip @ '':'' @ lower L username"

definition authenticate_login ::
  "auth_lib \<Rightarrow> auth_settings \<Rightarrow> nat \<Rightarrow> time \<Rightarrow> time \<Rightarrow> str \<Rightarrow> str \<Rightarrow> str \<Rightarrow> auth_db \<Rightarrow> limiter
   \<Rightarrow> limiter \<times> (auth_error + admin_user)" where
  "authenticate_login L S n t1 t2 client_ip username password db l =
     (let key = login_key L client_ip username in
      case enforce_rate_limit t1 t1 key (login_max_failures S) (limit_window S) l of
        (l1, Some retry) \<Rightarrow> (l1, Inl (too_many ''Too many failed login attempts''))
      | (l1, None) \<Rightarrow>
     (case authenticate_admin L db username password of
        None \<Rightarrow>
          (case record_failure_and_enforce n t2 key (login_max_failures S) (limit_window S) l1 of
             (l2, Some retry) \<Rightarrow> (l2, Inl (too_many ''Too many failed login attempts''))
           | (l2, None) \<Rightarrow> (l2, Inl (unauthorized ''Invalid credentials'')))
      | Some user \<Rightarrow> (clear key l1, Inr user)))"

text \<open>The cookies of a session and the CSRF token of the answer.\<close>

record session_cookies =
  access_cookie :: str
  refresh_cookie :: str
  csrf_token :: str

definition set_auth_cookies :: "auth_lib \<Rightarrow> auth_settings \<Rightarrow> str \<Rightarrow> str \<Rightarrow> session_cookies" where
  "set_auth_cookies L S access_token refresh_token = \<lparr>access_cookie = access_token,
     refresh_cookie = refresh_token, csrf_token = create_csrf_token L access_token (secret_key S)\<rparr>"

record auth_server =
  as_db :: auth_db
  as_limiter :: limiter

definition login ::
  "auth_lib \<Rightarrow> auth_settings \<Rightarrow> (str \<Rightarrow> (str \<times> str) option) \<Rightarrow> nat \<Rightarrow> time \<Rightarrow> time \<Rightarrow> str \<Rightarrow> str option \<Rightarrow> str option
   \<Rightarrow> str \<Rightarrow> str \<Rightarrow> str \<Rightarrow> str \<Rightarrow> auth_server \<Rightarrow> auth_server \<times> (auth_error + session_cookies)" where
  "login L S url_parse n t1 t2 base_url origin referer client_ip username password fresh s =
     (case (if enforce_login_origin S then enforce_origin url_parse S base_url origin referer else None) of
        Some e \<Rightarrow> (s, Inl e)
      | None \<Rightarrow>
     (case authenticate_login L S n t1 t2 client_ip username password (as_db s) (as_limiter s) of
        (l, Inl e) \<Rightarrow> (s\<lparr>as_limiter := l\<rparr>, Inl e)
      | (l, Inr user) \<Rightarrow>
     (case create_tokens L S t2 fresh user (as_db s) of
        None \<Rightarrow> (s\<lparr>as_limiter := l\<rparr>, Inl AuthRaises)
      | Some (db, access_token, refresh_token) \<Rightarrow>
          (s\<lparr>as_db := db, as_limiter := l\<rparr>, Inr (set_auth_cookies L S access_token refresh_token)))))"

definition token_login ::
  "auth_lib \<Rightarrow> auth_settings \<Rightarrow> nat \<Rightarrow> time \<Rightarrow> time \<Rightarrow> str option \<Rightarrow> str option \<Rightarrow> str \<Rightarrow> str \<Rightarrow> str
   \<Rightarrow> auth_server \<Rightarrow> auth_server \<times> (auth_error + str)" where
  "token_login L S n t1 t2 origin referer client_ip username password s =
     (if origin \<noteq> None \<or> referer \<noteq> None
      then (s, Inl (forbidden ''Browser-originated requests must use session login''))
      else (case authenticate_login L S n t1 t2 client_ip username password (as_db s) (as_limiter s) of
        (l, Inl e) \<Rightarrow> (s\<lparr>as_limiter := l\<rparr>, Inl e)
      | (l, Inr user) \<Rightarrow> (s\<lparr>as_limiter := l\<rparr>,
          Inr (create_access_token L t2 (access_claims L user) (secret_key S) (access_minutes S)))))"

text \<open>The token comes from the body or else from the cookie.\<close>

definition presented_token :: "str option \<Rightarrow> str option \<Rightarrow> str option" where
  "presented_token body cookie = (case body of Some t \<Rightarrow> Some t | None \<Rightarrow> cookie)"

definition refresh ::
  "auth_lib \<Rightarrow> auth_settings \<Rightarrow> nat \<Rightarrow> time \<Rightarrow> time \<Rightarrow> str \<Rightarrow> str option \<Rightarrow> str option \<Rightarrow> str
   \<Rightarrow> auth_server \<Rightarrow> auth_server \<times> (auth_error + session_cookies)" where
  "refresh L S n t1 t2 client_ip body cookie fresh s =
     (let key = ''refresh:'' @ client_ip in
      case enforce_rate_limit t1 t1 key (refresh_max_failures S) (limit_window S) (as_limiter s) of
        (l1, Some retry) \<Rightarrow> (s\<lparr>as_limiter := l1\<rparr>, Inl (too_many ''Too many failed refresh attempts''))
      | (l1, None) \<Rightarrow>
     (case presented_token body cookie of
        None \<Rightarrow> (s\<lparr>as_limiter := l1\<rparr>, Inl (unauthorized ''Invalid or expired refresh token''))
      | Some token \<Rightarrow>
     (case refresh_tokens L S t2 fresh token (as_db s) of
        None \<Rightarrow> (s\<lparr>as_limiter := l1\<rparr>, Inl AuthRaises)
      | Some (db, None) \<Rightarrow>
          (case record_failure_and_enforce n t2 key (refresh_max_failures S) (limit_window S) l1 of
             (l2, Some retry) \<Rightarrow> (s\<lparr>as_db := db, as_limiter := l2\<rparr>, Inl (too_many ''Too many failed refresh attempts''))
           | (l2, None) \<Rightarrow> (s\<lparr>as_db := db, as_limiter := l2\<rparr>, Inl (unauthorized ''Invalid or expired refresh token'')))
      | Some (db, Some (access_token, refresh_token)) \<Rightarrow>
          (s\<lparr>as_db := db, as_limiter := clear key l1\<rparr>, Inr (set_auth_cookies L S access_token refresh_token)))))"

definition logout :: "auth_lib \<Rightarrow> str option \<Rightarrow> str option \<Rightarrow> auth_server \<Rightarrow> auth_server" where
  "logout L body cookie s = (case presented_token body cookie of
     None \<Rightarrow> s | Some token \<Rightarrow> s\<lparr>as_db := fst (revoke_refresh_token L token (as_db s))\<rparr>)"

definition get_csrf_token :: "auth_lib \<Rightarrow> auth_settings \<Rightarrow> str option \<Rightarrow> auth_error + str" where
  "get_csrf_token L S cookie = (case cookie of
     None \<Rightarrow> Inl (unauthorized ''Not authenticated'')
   | Some access_token \<Rightarrow> Inr (create_csrf_token L access_token (secret_key S)))"

text \<open>The flag is the header \<^verbatim>\<open>X-Refresh-Available\<close>.\<close>

definition me :: "admin_user option \<Rightarrow> str option \<Rightarrow> (auth_error \<times> bool) + admin_user" where
  "me user refresh_token = (case user of
     None \<Rightarrow> Inl (unauthorized ''Not authenticated'', refresh_token \<noteq> None \<and> refresh_token \<noteq> Some [])
   | Some u \<Rightarrow> Inr u)"

definition store_admin :: "admin_user \<Rightarrow> auth_db \<Rightarrow> auth_db" where
  "store_admin user db = db\<lparr>adb_admins := map (\<lambda>u. if adm_id u = adm_id user then user else u) (adb_admins db)\<rparr>"

definition change_password ::
  "auth_lib \<Rightarrow> auth_settings \<Rightarrow> nat \<Rightarrow> time \<Rightarrow> time \<Rightarrow> admin_user \<Rightarrow> str \<Rightarrow> str \<Rightarrow> auth_server \<Rightarrow> auth_server \<times> auth_error option" where
  "change_password L S n t1 t2 user current_password new_password s =
     (if disable_password_change S
      then (s, Some (forbidden ''Password changes are disabled by server configuration''))
      else
        let key = ''password_change:'' @ show_id L (adm_id user) in
        case enforce_rate_limit t1 t1 key 5 300 (as_limiter s) of
          (l1, Some retry) \<Rightarrow> (s\<lparr>as_limiter := l1\<rparr>, Some (too_many ''Too many failed password change attempts''))
        | (l1, None) \<Rightarrow>
            if \<not> verify_password L current_password (adm_password_hash user)
            then (s\<lparr>as_limiter := add_failure n t2 t2 key 300 l1\<rparr>,
              Some (AuthHttp (HTTPException 400 ''Current password is incorrect'')))
            else (case bcrypt_hash L new_password of
              None \<Rightarrow> (s\<lparr>as_limiter := clear key l1\<rparr>, Some AuthRaises)
            | Some h \<Rightarrow> (s\<lparr>as_limiter := clear key l1, as_db := revoke_admin_credentials (adm_id user)
                (store_admin (user\<lparr>adm_password_hash := h, adm_updated_at := format_iso L t2\<rparr>) (as_db s))\<rparr>, None)))"

section \<open>The admin account at start-up\<close>

text \<open>\<open>update_author_in_posts\<close> on the posts as the scan gives them; \<open>fails\<close> says which files cannot be
  written. The flag is the \<open>OSError\<close> raised at the end.\<close>

definition update_author_in_posts ::
  "(str \<Rightarrow> bool) \<Rightarrow> str \<Rightarrow> str \<Rightarrow> post_data list \<Rightarrow> post_data list \<times> nat \<times> bool" where
  "update_author_in_posts fails old_username new_username posts =
     (let mine = (\<lambda>p. author p = Some old_username);
          can = (\<lambda>p. mine p \<and> \<not> fails (post_file_path p)) in
      (map (\<lambda>p. if can p then p\<lparr>author := Some new_username\<rparr> else p) posts,
       length (filter can posts), list_ex (\<lambda>p. mine p \<and> fails (post_file_path p)) posts))"

text \<open>Accounts of stale admins move to the target unless it has one under that key.\<close>

definition move_account :: "nat \<Rightarrow> nat list \<Rightarrow> social_account \<Rightarrow> social_account list \<times> (str \<times> str) list \<Rightarrow> social_account list \<times> (str \<times> str) list" where
  "move_account target stale_ids account = (\<lambda>(kept, keys).
     if acc_user account \<notin> set stale_ids then (kept @ [account], keys)
     else if acc_key account \<in> set keys then (kept, keys)
     else (kept @ [account\<lparr>acc_user := target\<rparr>], keys @ [acc_key account]))"

definition collapse_admin_identities :: "nat \<Rightarrow> nat list \<Rightarrow> auth_db \<Rightarrow> auth_db" where
  "collapse_admin_identities target stale_ids db =
     (if stale_ids = [] then db
      else
        let target_keys = map acc_key (filter (\<lambda>a. acc_user a = target) (adb_accounts db)) in
        db\<lparr>adb_accounts := fst (fold (move_account target stale_ids) (adb_accounts db) ([], target_keys)),
           adb_cross_posts := map (\<lambda>(i, u). (i, case u of
             Some v \<Rightarrow> if v \<in> set stale_ids then Some target else u | None \<Rightarrow> None)) (adb_cross_posts db),
           adb_admins := filter (\<lambda>u. adm_id u \<notin> set stale_ids) (adb_admins db),
           adb_tokens := filter (\<lambda>t. tok_user t \<notin> set stale_ids) (adb_tokens db)\<rparr>)"

definition target_display :: "auth_settings \<Rightarrow> str" where
  "target_display S = (if strip (admin_display_name S) \<noteq> [] then strip (admin_display_name S) else admin_username S)"

text \<open>The admin row brought up to date: the row, whether it changed, whether its tokens are revoked.\<close>

definition sync_admin :: "auth_lib \<Rightarrow> auth_settings \<Rightarrow> time \<Rightarrow> bool \<Rightarrow> admin_user \<Rightarrow> admin_user \<times> bool" where
  "sync_admin L S now identity_changed existing =
     (let (hashed, password_changed) =
            (if verify_password L (admin_password S) (adm_password_hash existing)
             then (adm_password_hash existing, False)
             else (case bcrypt_hash L (admin_password S) of
                 None \<Rightarrow> (adm_password_hash existing, False) | Some h \<Rightarrow> (h, True)));
          dirty = (password_changed \<or> identity_changed \<or> adm_display_name existing \<noteq> Some (target_display S))
      in (existing\<lparr>adm_password_hash := hashed, adm_display_name := Some (target_display S),
            adm_updated_at := if dirty then format_iso L now else adm_updated_at existing\<rparr>,
          password_changed \<or> identity_changed))"

text \<open>The existing row becomes the configured admin and the others are merged into it. The second
  component lists the user names to replace in posts.\<close>

definition adopt_admin ::
  "auth_lib \<Rightarrow> auth_settings \<Rightarrow> time \<Rightarrow> admin_user \<Rightarrow> str option \<Rightarrow> admin_user list \<Rightarrow> auth_db \<Rightarrow> auth_db \<times> str list" where
  "adopt_admin L S now existing previous stale_admins db =
     (let (user, revoke) = sync_admin L S now (previous \<noteq> None) (existing\<lparr>adm_username := admin_username S\<rparr>);
          stale_ids = map adm_id stale_admins;
          usernames_to_rewrite = fold (\<lambda>u l. if u \<in> set l then l else l @ [u])
            (filter (\<lambda>u. u \<noteq> admin_username S) (map adm_username stale_admins))
            (case previous of None \<Rightarrow> [] | Some p \<Rightarrow> [p]);
          db1 = collapse_admin_identities (adm_id user) stale_ids (store_admin user db)
      in (if revoke \<or> stale_ids \<noteq> [] then revoke_admin_credentials (adm_id user) db1 else db1, usernames_to_rewrite))"

text \<open>The tables and the posts after start-up; \<open>None\<close>: hashing the first password raised. A post that
  cannot be written keeps its author and stops the remaining renames.\<close>

fun rewrite_authors :: "(str \<Rightarrow> bool) \<Rightarrow> str \<Rightarrow> str list \<Rightarrow> post_data list \<Rightarrow> post_data list" where
  "rewrite_authors fails new_username [] posts = posts"
| "rewrite_authors fails new_username (u # us) posts = (case update_author_in_posts fails u new_username posts of
     (posts', n, failed) \<Rightarrow> if failed then posts' else rewrite_authors fails new_username us posts')"

definition first_admin :: "auth_lib \<Rightarrow> auth_settings \<Rightarrow> time \<Rightarrow> str \<Rightarrow> admin_user" where
  "first_admin L S now password_hash = \<lparr>adm_id = next_id [], adm_username = admin_username S,
     adm_email = admin_username S @ ''@localhost'', adm_password_hash = password_hash,
     adm_display_name = Some (target_display S), adm_updated_at = format_iso L now\<rparr>"

definition ensure_admin_user ::
  "auth_lib \<Rightarrow> auth_settings \<Rightarrow> time \<Rightarrow> (str \<Rightarrow> bool) \<Rightarrow> auth_db \<times> post_data list \<Rightarrow> (auth_db \<times> post_data list) option" where
  "ensure_admin_user L S now fails = (\<lambda>(db, posts).
     let admins = sort_key adm_id (adb_admins db);
         finish = (\<lambda>(db', names). Some (db', rewrite_authors fails (admin_username S) names posts))
     in case List.find (\<lambda>u. adm_username u = admin_username S) admins of
          Some existing \<Rightarrow> finish (adopt_admin L S now existing None (filter (\<lambda>u. adm_id u \<noteq> adm_id existing) admins) db)
        | None \<Rightarrow> (case admins of
            [] \<Rightarrow> map_option (\<lambda>h. (db\<lparr>adb_admins := [first_admin L S now h]\<rparr>, posts)) (bcrypt_hash L (admin_password S))
          | existing # stale \<Rightarrow> finish (adopt_admin L S now existing (Some (adm_username existing)) stale db)))"

section \<open>The profile\<close>

text \<open>\<open>update_profile\<close>. The writes of the rename and those of its undoing can fail for different
  files (\<open>fails\<close>, \<open>fails'\<close>); \<open>rebuilt\<close> and \<open>reverted\<close> say whether the cache rebuild and the second
  transaction succeed.\<close>

record rename_faults =
  rf_write :: "str \<Rightarrow> bool"
  rf_undo :: "str \<Rightarrow> bool"
  rf_rebuilt :: bool
  rf_reverted :: bool

definition profile_row :: "auth_lib \<Rightarrow> time \<Rightarrow> str option \<Rightarrow> str option \<Rightarrow> admin_user \<Rightarrow> admin_user" where
  "profile_row L now username display_name user =
     (let user1 = (case username of Some n \<Rightarrow> if n \<noteq> adm_username user then user\<lparr>adm_username := n\<rparr> else user | None \<Rightarrow> user);
          user2 = (case display_name of
            Some d \<Rightarrow> user1\<lparr>adm_display_name := (if d = [] then None else Some d)\<rparr> | None \<Rightarrow> user1)
      in if user2 = user then user else user2\<lparr>adm_updated_at := format_iso L now\<rparr>)"

definition update_profile ::
  "auth_lib \<Rightarrow> time \<Rightarrow> rename_faults \<Rightarrow> admin_user \<Rightarrow> str option \<Rightarrow> str option
   \<Rightarrow> auth_db \<times> post_data list \<Rightarrow> (auth_db \<times> post_data list) \<times> (http_error + admin_user)" where
  "update_profile L now F user username display_name = (\<lambda>(db, posts).
     let old_username = adm_username user;
         taken = (case username of None \<Rightarrow> False
           | Some n \<Rightarrow> n \<noteq> old_username \<and> find_admin db (\<lambda>u. adm_username u = n) \<noteq> None)
     in if taken then ((db, posts), Inl (HTTPException 409 ''Username already taken''))
        else
          let user' = profile_row L now username display_name user;
              new_username = adm_username user';
              db1 = store_admin user' db
          in if new_username = old_username then ((db1, posts), Inr user')
             else
               let revert = (\<lambda>posts1.
                     (if rf_reverted F then store_admin (user'\<lparr>adm_username := old_username\<rparr>) db1 else db1,
                      fst (update_author_in_posts (rf_undo F) new_username old_username posts1)));
                   (posts1, updated, failed) = update_author_in_posts (rf_write F) old_username new_username posts
               in if failed \<or> \<not> rf_rebuilt F
                  then (revert posts1, Inl (HTTPException 500 ''Failed to update profile''))
                  else ((db1, posts1), Inr user'))"

section \<open>Guessing passwords\<close>

lemma enforce_represents:
  assumes "represents w now l H" "0 < limit"
  shows "represents w now (fst (enforce_rate_limit now now' key limit w l)) H"
    "snd (enforce_rate_limit now now' key limit w l) \<noteq> None \<longleftrightarrow> limit \<le> int (length (in_window now w (H key)))"
  using is_limited_represents [OF assms(1), where now' = now' and k = key and limit = limit] assms(2)
  by (auto simp: enforce_rate_limit_def split: prod.split)

lemma record_represents:
  assumes "represents w now l H" "0 < limit"
  shows "represents w now (fst (record_failure_and_enforce n now key limit w l)) (H(key := H key @ [now]))"
    "snd (record_failure_and_enforce n now key limit w l) \<noteq> None \<longleftrightarrow>
      limit \<le> int (length (in_window now w (H key @ [now])))"
  using enforce_represents [OF add_failure_represents [OF assms(1), where n = n and k = key] assms(2),
      where now' = now and key = key]
  by (simp_all add: record_failure_and_enforce_def)

text \<open>What a login attempt answers, in terms of the history of failures under its key.\<close>

definition login_answer ::
  "auth_lib \<Rightarrow> auth_settings \<Rightarrow> time \<Rightarrow> time \<Rightarrow> time list \<Rightarrow> admin_user option \<Rightarrow> auth_error + admin_user" where
  "login_answer L S t1 t2 h user =
     (let w = limit_window S; locked = (\<lambda>xs. login_max_failures S \<le> int (length xs)) in
      if locked (in_window t1 w h) then Inl (too_many ''Too many failed login attempts'')
      else (case user of
        Some u \<Rightarrow> Inr u
      | None \<Rightarrow> if locked (in_window t2 w (h @ [t2])) then Inl (too_many ''Too many failed login attempts'')
          else Inl (unauthorized ''Invalid credentials'')))"

lemma authenticate_login_answer:
  fixes L :: auth_lib and client_ip username password :: str and db :: auth_db
  assumes rep: "represents (limit_window S) t1 l H" and "t1 \<le> t2" and pos: "0 < login_max_failures S"
  defines "key \<equiv> login_key L client_ip username" and "user \<equiv> authenticate_admin L db username password"
  shows "snd (authenticate_login L S n t1 t2 client_ip username password db l) = login_answer L S t1 t2 (H key) user"
    "\<exists>H'. represents (limit_window S) t2 (fst (authenticate_login L S n t1 t2 client_ip username password db l)) H' \<and>
      (\<forall>k. k \<noteq> key \<longrightarrow> H' k = H k)"
proof -
  let ?w = "limit_window S" and ?m = "login_max_failures S"
  obtain l1 r where e: "enforce_rate_limit t1 t1 key ?m ?w l = (l1, r)" by fastforce
  note first = enforce_represents [OF rep pos, where now' = t1 and key = key, unfolded e, simplified]
  have rep1: "represents ?w t2 l1 H" using first(1) assms(2) by (rule represents_later)
  obtain l2 r2 where e2: "record_failure_and_enforce n t2 key ?m ?w l1 = (l2, r2)" by fastforce
  note second = record_represents [OF rep1 pos, where n = n and key = key, unfolded e2, simplified]
  show "snd (authenticate_login L S n t1 t2 client_ip username password db l) = login_answer L S t1 t2 (H key) user"
    using first(2) second(2)
    by (auto simp: authenticate_login_def login_answer_def key_def [symmetric] user_def [symmetric] e e2 Let_def
      split: option.splits)
  have "represents ?w t2 (clear key l1) (H(key := []))" using rep1 by (rule represents_clear)
  then show "\<exists>H'. represents ?w t2 (fst (authenticate_login L S n t1 t2 client_ip username password db l)) H' \<and>
      (\<forall>k. k \<noteq> key \<longrightarrow> H' k = H k)"
    using rep1 second(1)
    by (auto simp: authenticate_login_def key_def [symmetric] user_def [symmetric] e e2 Let_def
      split: option.splits)
qed



section \<open>One admin after start-up\<close>

abbreviation account_keys :: "social_account list \<Rightarrow> (str \<times> str) set" where
  "account_keys accounts \<equiv> acc_key ` set accounts"

text \<open>The foreign keys and the unique columns of the tables.\<close>

definition auth_tables_ok :: "auth_db \<Rightarrow> bool" where
  "auth_tables_ok db \<longleftrightarrow>
     distinct (map adm_id (adb_admins db)) \<and> distinct (map adm_username (adb_admins db)) \<and>
     list_all (\<lambda>t. tok_user t \<in> adm_id ` set (adb_admins db)) (adb_tokens db) \<and>
     list_all (\<lambda>a. acc_user a \<in> adm_id ` set (adb_admins db)) (adb_accounts db) \<and>
     distinct (map (\<lambda>a. (acc_user a, acc_key a)) (adb_accounts db))"

lemma move_account_cases:
  "move_account t st a (kept, keys) =
    (if acc_user a \<notin> set st then (kept @ [a], keys)
     else if acc_key a \<in> set keys then (kept, keys)
     else (kept @ [a\<lparr>acc_user := t\<rparr>], keys @ [acc_key a]))"
  by (simp add: move_account_def)

lemma moved_kept: "set kept \<union> {a \<in> set as. acc_user a \<notin> set st} \<subseteq> set (fst (fold (move_account t st) as (kept, keys)))"
proof (induction as arbitrary: kept keys)
  case (Cons a as)
  show ?case
    using Cons.IH [of "kept @ [a]" keys] Cons.IH [of kept keys]
      Cons.IH [of "kept @ [a\<lparr>acc_user := t\<rparr>]" "keys @ [acc_key a]"]
    by (auto simp: move_account_cases)
qed simp

lemma moved_accounts:
  "account_keys (fst (fold (move_account t st) as (kept, keys))) \<union> set keys =
    account_keys kept \<union> account_keys as \<union> set keys"
proof (induction as arbitrary: kept keys)
  case (Cons a as)
  consider (own) "acc_user a \<notin> set st" | (drop) "acc_user a \<in> set st" "acc_key a \<in> set keys"
    | (move) "acc_user a \<in> set st" "acc_key a \<notin> set keys" by blast
  then show ?case
  proof cases
    case move
    have "acc_key a \<in> account_keys (fst (fold (move_account t st) as (kept @ [a\<lparr>acc_user := t\<rparr>], keys @ [acc_key a])))"
      using moved_kept [of "kept @ [a\<lparr>acc_user := t\<rparr>]" as st t "keys @ [acc_key a]"]
      by (auto intro!: image_eqI [of _ acc_key "a\<lparr>acc_user := t\<rparr>"])
    then show ?thesis
      using move Cons.IH [of "kept @ [a\<lparr>acc_user := t\<rparr>]" "keys @ [acc_key a]"]
      by (simp add: move_account_cases insert_absorb)
  next
    case own
    then show ?thesis using Cons.IH [of "kept @ [a]" keys] by (simp add: move_account_cases)
  next
    case drop
    then show ?thesis using Cons.IH [of kept keys] by (auto simp: move_account_cases)
  qed
qed simp

lemma moved_users:
  "\<lbrakk>\<forall>a\<in>set as. acc_user a \<in> insert t (set st); \<forall>a\<in>set kept. acc_user a = t;
    a \<in> set (fst (fold (move_account t st) as (kept, keys)))\<rbrakk> \<Longrightarrow> acc_user a = t"
proof (induction as arbitrary: kept keys)
  case (Cons b as)
  show ?case
    using Cons.prems Cons.IH [of "kept @ [b]" keys] Cons.IH [of kept keys]
      Cons.IH [of "kept @ [b\<lparr>acc_user := t\<rparr>]" "keys @ [acc_key b]"]
    by (auto simp: move_account_cases split: if_splits)
qed simp

abbreviation own_accounts :: "nat list \<Rightarrow> social_account list \<Rightarrow> social_account list" where
  "own_accounts stale_ids accounts \<equiv> filter (\<lambda>a. acc_user a \<notin> set stale_ids) accounts"

lemma moved_distinct:
  "\<lbrakk>distinct (map acc_key kept); account_keys kept \<subseteq> set keys; account_keys (own_accounts st as) \<subseteq> set keys;
    distinct (map acc_key (own_accounts st as)); account_keys kept \<inter> account_keys (own_accounts st as) = {}\<rbrakk> \<Longrightarrow>
    distinct (map acc_key (fst (fold (move_account t st) as (kept, keys))))"
proof (induction as arbitrary: kept keys)
  case (Cons a as)
  consider (own) "acc_user a \<notin> set st" | (drop) "acc_user a \<in> set st" "acc_key a \<in> set keys"
    | (move) "acc_user a \<in> set st" "acc_key a \<notin> set keys" by blast
  then show ?case
  proof cases
    case own
    then show ?thesis using Cons.prems Cons.IH [of "kept @ [a]" keys] by (auto simp: move_account_def)
  next
    case drop
    then show ?thesis using Cons.prems Cons.IH [of kept keys] by (simp add: move_account_def)
  next
    case move
    have "distinct (map acc_key (kept @ [a\<lparr>acc_user := t\<rparr>]))" using Cons.prems(1,2) move by auto
    then show ?thesis
      using Cons.prems move Cons.IH [of "kept @ [a\<lparr>acc_user := t\<rparr>]" "keys @ [acc_key a]"]
      by (simp add: move_account_def) blast
  qed
qed simp

lemma stored_alone:
  assumes "distinct (map adm_id us)" and "e \<in> set us" and "adm_id user = adm_id e"
    and "\<forall>u\<in>set us. adm_id u \<in> st \<longleftrightarrow> adm_id u \<noteq> adm_id e"
  shows "filter (\<lambda>u. adm_id u \<notin> st) (map (\<lambda>u. if adm_id u = adm_id user then user else u) us) = [user]"
proof -
  obtain xs ys where us: "us = xs @ e # ys" using assms(2) by (meson split_list)
  have "adm_id u \<noteq> adm_id e" if "u \<in> set xs \<union> set ys" for u using assms(1) that us by (auto simp: image_iff)
  then show ?thesis using assms(3,4) us by (auto simp: filter_empty_conv)
qed

text \<open>The tables after the merge: one admin, to whom all tokens and accounts belong; no account is lost
  but for duplicates.\<close>

definition merged_into :: "auth_db \<Rightarrow> admin_user \<Rightarrow> auth_db \<Rightarrow> bool" where
  "merged_into db user db' \<longleftrightarrow> adb_admins db' = [user] \<and>
     list_all (\<lambda>t. tok_user t = adm_id user) (adb_tokens db') \<and>
     list_all (\<lambda>a. acc_user a = adm_id user) (adb_accounts db') \<and>
     distinct (map acc_key (adb_accounts db')) \<and>
     account_keys (adb_accounts db') = account_keys (adb_accounts db)"

lemma merged_revoked: "merged_into db user db' \<Longrightarrow> merged_into db user (revoke_admin_credentials i db')"
  by (auto simp: merged_into_def revoke_admin_credentials_def list_all_iff)

lemma collapse_merges:
  assumes ok: "auth_tables_ok db" and e: "existing \<in> set (adb_admins db)" "adm_id user = adm_id existing"
    and stale: "set stale = {u \<in> set (adb_admins db). adm_id u \<noteq> adm_id existing}"
  shows "merged_into db user (collapse_admin_identities (adm_id user) (map adm_id stale) (store_admin user db))"
proof -
  let ?st = "map adm_id stale" and ?as = "adb_accounts db" and ?t = "adm_id user"
  let ?own = "map acc_key (filter (\<lambda>a. acc_user a = ?t) ?as)"
  have ids: "adm_id u \<in> set ?st \<longleftrightarrow> adm_id u \<noteq> adm_id existing" if "u \<in> set (adb_admins db)" for u
    unfolding set_map stale using that by (metis (mono_tags, lifting) imageE image_eqI mem_Collect_eq)
  then have alone: "filter (\<lambda>u. adm_id u \<notin> set ?st) (adb_admins (store_admin user db)) = [user]"
    using stored_alone [of "adb_admins db" existing user "set ?st"] ok e by (simp add: auth_tables_ok_def store_admin_def)
  have known: "i \<notin> set ?st \<longleftrightarrow> i = ?t" if "i \<in> adm_id ` set (adb_admins db)" for i
    using that ids e(2) by auto
  have users: "acc_user a \<in> insert ?t (set ?st)" "acc_user a \<notin> set ?st \<longleftrightarrow> acc_user a = ?t" if "a \<in> set ?as" for a
    using ok that known [of "acc_user a"] by (auto simp: auth_tables_ok_def list_all_iff)
  have tokens: "tok_user t \<notin> set ?st \<longleftrightarrow> tok_user t = ?t" if "t \<in> set (adb_tokens db)" for t
    using ok that known [of "tok_user t"] by (auto simp: auth_tables_ok_def list_all_iff)
  have same: "own_accounts ?st ?as = filter (\<lambda>a. acc_user a = ?t) ?as" by (rule filter_cong [OF refl users(2)])
  have "distinct (map (\<lambda>a. (acc_user a, acc_key a)) (filter (\<lambda>a. acc_user a = ?t) ?as))"
    using ok by (simp add: auth_tables_ok_def distinct_map_filter)
  then have own: "distinct ?own" by (auto simp: distinct_map inj_on_def)
  let ?new = "fst (fold (move_account ?t ?st) ?as ([], ?own))"
  have "distinct (map acc_key ?new)" by (rule moved_distinct, unfold same) (simp_all add: own)
  moreover have "account_keys ?new = account_keys ?as"
  proof -
    have "set ?own \<subseteq> account_keys ?new"
      using moved_kept [of "[]" ?as ?st ?t ?own] users(2) by auto
    moreover have "set ?own \<subseteq> account_keys ?as" by auto
    moreover have "account_keys ?new \<union> set ?own = account_keys [] \<union> account_keys ?as \<union> set ?own" by (rule moved_accounts)
    ultimately show ?thesis by (metis Un_absorb2 Un_empty_left image_empty list.set(1))
  qed
  moreover have "list_all (\<lambda>a. acc_user a = ?t) ?new"
    unfolding list_all_iff
  proof
    have "\<forall>a\<in>set ?as. acc_user a \<in> insert ?t (set ?st)" using users(1) by blast
    then show "acc_user a = ?t" if "a \<in> set ?new" for a by (rule moved_users [OF _ _ that]) simp
  qed
  ultimately have new: "distinct (map acc_key ?new) \<and> account_keys ?new = account_keys ?as \<and> list_all (\<lambda>a. acc_user a = ?t) ?new"
    by blast
  have tk: "list_all (\<lambda>t. tok_user t = ?t) (filter (\<lambda>t. tok_user t \<notin> set ?st) (adb_tokens db))"
    using tokens unfolding list_all_iff set_filter by blast
  show ?thesis
  proof (cases "stale = []")
    case True
    have "filter (\<lambda>a. acc_user a = ?t) ?as = ?as" "\<forall>a\<in>set ?as. acc_user a = ?t"
      using True users(2) by (simp_all add: filter_id_conv)
    then show ?thesis using True alone tk own
      by (simp add: merged_into_def collapse_admin_identities_def list_all_iff store_admin_def)
  next
    case False
    define D where "D = collapse_admin_identities ?t ?st (store_admin user db)"
    have parts: "adb_admins D = [user]" "adb_accounts D = ?new"
        "adb_tokens D = filter (\<lambda>t. tok_user t \<notin> set ?st) (adb_tokens db)"
      using False unfolding D_def collapse_admin_identities_def alone by (simp_all add: store_admin_def Let_def)
    show ?thesis unfolding D_def [symmetric] merged_into_def parts using new tk by blast
  qed
qed

lemma rewrite_names:
  "set (fold (\<lambda>u l. if u \<in> set l then l else l @ [u]) us l) = set l \<union> set us"
  by (induction us arbitrary: l) auto

lemma adopt_admin_merges:
  assumes ok: "auth_tables_ok db" and e: "existing \<in> set (adb_admins db)"
    and stale: "set stale = {u \<in> set (adb_admins db). adm_id u \<noteq> adm_id existing}"
    and run: "adopt_admin L S now existing previous stale db = (db', names)"
  shows "merged_into db (fst (sync_admin L S now (previous \<noteq> None) (existing\<lparr>adm_username := admin_username S\<rparr>))) db'"
    "set names = set_option previous \<union> {u \<in> adm_username ` set stale. u \<noteq> admin_username S}"
proof -
  obtain user revoke where u: "sync_admin L S now (previous \<noteq> None) (existing\<lparr>adm_username := admin_username S\<rparr>) = (user, revoke)"
    by fastforce
  then have "adm_id user = adm_id existing" by (auto simp: sync_admin_def Let_def split: if_splits option.splits)
  note m = collapse_merges [OF ok e this stale]
  show "merged_into db (fst (sync_admin L S now (previous \<noteq> None) (existing\<lparr>adm_username := admin_username S\<rparr>))) db'"
    using run m merged_revoked [OF m] unfolding adopt_admin_def u by (auto simp: Let_def split: if_splits)
  show "set names = set_option previous \<union> {u \<in> adm_username ` set stale. u \<noteq> admin_username S}"
    using run unfolding adopt_admin_def u by (auto simp: Let_def rewrite_names split: option.splits)
qed

text \<open>C39. Whatever accounts an older configuration left behind, after start-up there is exactly one
  admin, with the configured name and display name, and the configured password opens it if hashing
  gives a hash that verifies; all sessions and social accounts belong to it, and no social account is
  lost except duplicates.\<close>

theorem startup_leaves_one_admin:
  assumes "auth_tables_ok db" and "ensure_admin_user L S now fails (db, posts) = Some (db', posts')"
    and "bcrypt_hash L (admin_password S) = Some h" and "verify_password L (admin_password S) h"
  shows "\<exists>user. merged_into db user db' \<and> adm_username user = admin_username S \<and>
    adm_display_name user = Some (target_display S) \<and> authenticate_admin L db' (admin_username S) (admin_password S) = Some user"
proof -
  have good: "\<exists>user. merged_into db user db' \<and> adm_username user = admin_username S \<and>
      adm_display_name user = Some (target_display S) \<and> authenticate_admin L db' (admin_username S) (admin_password S) = Some user"
    if m: "merged_into db (fst (sync_admin L S now b (e\<lparr>adm_username := admin_username S\<rparr>))) db'" for b e
  proof -
    define user where "user = fst (sync_admin L S now b (e\<lparr>adm_username := admin_username S\<rparr>))"
    have "adm_username user = admin_username S" "adm_display_name user = Some (target_display S)"
      "verify_password L (admin_password S) (adm_password_hash user)"
      using assms(3,4) by (auto simp: user_def sync_admin_def Let_def split: if_splits)
    then show ?thesis using m [folded user_def]
      by (auto simp: authenticate_admin_def find_admin_def merged_into_def)
  qed
  let ?admins = "sort_key adm_id (adb_admins db)"
  have ids: "distinct (map adm_id ?admins)" using assms(1) by (simp add: auth_tables_ok_def distinct_map)
  show ?thesis
  proof (cases "List.find (\<lambda>u. adm_username u = admin_username S) ?admins")
    case (Some e)
    then have "e \<in> set (adb_admins db)" by (metis find_Some_iff nth_mem set_sort)
    obtain db1 names where a: "adopt_admin L S now e None (filter (\<lambda>u. adm_id u \<noteq> adm_id e) ?admins) db = (db1, names)" by fastforce
    have "db1 = db'" using assms(2) Some a by (simp add: ensure_admin_user_def)
    then show ?thesis using adopt_admin_merges(1) [OF assms(1) \<open>e \<in> _\<close> _ a] good by auto
  next
    case None
    show ?thesis
    proof (cases ?admins)
      case Nil
      then have "db' = db\<lparr>adb_admins := [first_admin L S now h]\<rparr>" "adb_admins db = []"
        using assms(2,3) None by (auto simp: ensure_admin_user_def dest: arg_cong [where f = set])
      then show ?thesis using assms(1,4)
        by (auto simp: merged_into_def auth_tables_ok_def authenticate_admin_def find_admin_def first_admin_def list_all_iff)
    next
      case (Cons e stale)
      then have s: "set (adb_admins db) = insert e (set stale)" by (metis list.simps(15) set_sort)
      have "adm_id u \<noteq> adm_id e" if "u \<in> set stale" for u using ids Cons that by (force simp: image_iff)
      then have st: "set stale = {u \<in> set (adb_admins db). adm_id u \<noteq> adm_id e}" "e \<in> set (adb_admins db)"
        using s by auto
      obtain db1 names where a: "adopt_admin L S now e (Some (adm_username e)) stale db = (db1, names)" by fastforce
      have "db1 = db'" using assms(2) None Cons a by (simp add: ensure_admin_user_def)
      then show ?thesis using adopt_admin_merges(1) [OF assms(1) st(2,1) a] by (intro good) simp
    qed
  qed
qed

definition two_admins :: auth_db where
  "two_admins = demo_auth\<lparr>adb_admins := [demo_admin\<lparr>adm_username := ''old''\<rparr>,
       demo_admin\<lparr>adm_id := 2, adm_username := ''other''\<rparr>],
     adb_accounts := [\<lparr>acc_id = 1, acc_user = 1, acc_key = (''mastodon'', ''a'')\<rparr>,
       \<lparr>acc_id = 2, acc_user = 2, acc_key = (''mastodon'', ''a'')\<rparr>,
       \<lparr>acc_id = 3, acc_user = 2, acc_key = (''bluesky'', ''b'')\<rparr>]\<rparr>"

theorem startup_leaves_one_admin_witness:
  "\<exists>db' user. ensure_admin_user plain_lib demo_settings 0 (\<lambda>path. False) (two_admins, []) = Some (db', []) \<and>
     adb_admins db' = [user] \<and> adm_username user = ''admin'' \<and>
     account_keys (adb_accounts db') = {(''mastodon'', ''a''), (''bluesky'', ''b'')}"
proof -
  have ok: "auth_tables_ok two_admins"
    by (simp add: auth_tables_ok_def two_admins_def demo_auth_def demo_admin_def)
  obtain db' where run: "ensure_admin_user plain_lib demo_settings 0 (\<lambda>path. False) (two_admins, []) = Some (db', [])"
    by (auto simp: ensure_admin_user_def two_admins_def demo_auth_def demo_admin_def demo_settings_def Let_def
      adopt_admin_def sync_admin_def plain_lib_def update_author_in_posts_def verify_password_def split: prod.splits)
  have "\<exists>user. merged_into two_admins user db' \<and> adm_username user = admin_username demo_settings \<and>
      adm_display_name user = Some (target_display demo_settings) \<and>
      authenticate_admin plain_lib db' (admin_username demo_settings) (admin_password demo_settings) = Some user"
    by (rule startup_leaves_one_admin [OF ok run, where h = "''pw''"])
      (simp_all add: plain_lib_def demo_settings_def verify_password_def)
  then show ?thesis using run by (auto simp: merged_into_def two_admins_def demo_settings_def)
qed

section \<open>Renaming the author\<close>

lemma update_author_parts:
  "update_author_in_posts fails old new posts =
    (map (\<lambda>p. if author p = Some old \<and> \<not> fails (post_file_path p) then p\<lparr>author := Some new\<rparr> else p) posts,
     length (filter (\<lambda>p. author p = Some old \<and> \<not> fails (post_file_path p)) posts),
     list_ex (\<lambda>p. author p = Some old \<and> fails (post_file_path p)) posts)"
  by (simp add: update_author_in_posts_def Let_def)

text \<open>Renaming back undoes a rename, complete or not, when nothing had the new name.\<close>

lemma rename_back:
  assumes "list_all (\<lambda>p. author p \<noteq> Some new) posts"
  shows "fst (update_author_in_posts (\<lambda>path. False) new old (fst (update_author_in_posts fails old new posts))) = posts"
  using assms by (induction posts) (auto simp: update_author_parts)

lemma profile_row_renamed:
  "n \<noteq> adm_username user \<Longrightarrow> adm_username (profile_row L now (Some n) display_name user) = n"
  "adm_id (profile_row L now (Some n) display_name user) = adm_id user"
  by (cases user; auto simp: profile_row_def Let_def split: option.splits)+


definition demo_post :: post_data where
  "demo_post = \<lparr>title = ''T'', content = [], raw_content = [], created_at = PNone, modified_at = PNone,
     subtitle = None, author = Some ''admin'', labels = [], is_draft = False, post_file_path = ''p.md''\<rparr>"

definition failed_rebuild :: rename_faults where
  "failed_rebuild = \<lparr>rf_write = (\<lambda>path. False), rf_undo = (\<lambda>path. False), rf_rebuilt = False, rf_reverted = True\<rparr>"


text \<open>Undoing a failed rename also takes over posts that named the new author before: they end up
  under the old user name, which they never had, and the new display name stays stored.\<close>

theorem failed_rename_takes_over_posts:
  assumes "find_admin db (\<lambda>u. adm_username u = n) = None" and "n \<noteq> adm_username user"
    and "author p = Some n" and "rf_undo F = (\<lambda>path. False)" and "\<not> rf_rebuilt F"
  shows "p\<lparr>author := Some (adm_username user)\<rparr> \<in> set (snd (fst
    (update_profile L now F user (Some n) display_name (db, [p]))))"
proof -
  define u where "u = profile_row L now (Some n) display_name user"
  have "adm_username u = n"
    using assms(2) by (simp_all add: u_def profile_row_renamed)
  then show ?thesis using assms
    by (simp add: update_profile_def u_def [symmetric] Let_def update_author_parts)
qed

theorem failed_rename_takes_over_posts_witness:
  "demo_post \<in> set (snd (fst (update_profile plain_lib 0 failed_rebuild demo_admin (Some ''ann'') None
     (demo_auth, [demo_post\<lparr>author := Some ''ann''\<rparr>]))))"
  using failed_rename_takes_over_posts [of demo_auth "''ann''" demo_admin "demo_post\<lparr>author := Some ''ann''\<rparr>"
      failed_rebuild plain_lib 0 None]
  by (simp add: find_admin_def demo_auth_def demo_admin_def demo_post_def failed_rebuild_def)

end
