(* ===== verification/Spec2Isabelle.thy ===== *)
theory Spec2Isabelle
  imports SyncSystem LabelApi AuthApi
begin

text \<open>
  Verification development for AgBlogger, a blog server whose posts are files under a content
  directory, kept in step with a local copy by a command line client.
\<close>

end
